theory Spec2Isabelle
  imports Main "HOL-Library.List_Lexorder" "HOL-Library.Sublist" "HOL-Library.AList" "HOL-Library.Word"
begin

section \<open>Python values used by \<open>manage_articles.py\<close>\<close>

text \<open>
  A Python \<open>str\<close> is a sequence of Unicode code points and is modelled as a list of
  integers (the code points); \<open>str ''nav:''\<close> is the literal \<open>"nav:"\<close>. The bytes of a file are
  8-bit words. Exceptions are values of the datatype \<open>exn\<close>; a function that may raise
  returns \<open>exn + 'a\<close>, with \<open>Inl\<close> for the exception.
\<close>

type_synonym pystr = "int list"
type_synonym byte = "8 word"

definition str :: "string \<Rightarrow> pystr" where
  "str s = map of_char s"

datatype exn =
    FileExistsError
  | IsADirectoryError
  | NotADirectoryError
  | FileNotFoundError
  | UnicodeDecodeError
  | UnicodeEncodeError
  | ValueError pystr
  | SystemExit int
  | EOFError
  | ShutilError
  | OSError
  | IndexError

text \<open>
  \<open>str.isspace\<close> for one code point: the code points that CPython treats as white space.
  The same set is what \<open>\s\<close> matches in a \<open>str\<close> pattern of \<open>re\<close>, and what
  \<open>str.strip()\<close> and \<open>str.split()\<close> remove.
\<close>

definition isspace :: "int \<Rightarrow> bool" where
  "isspace c \<longleftrightarrow>
     (9 \<le> c \<and> c \<le> 13) \<or> (28 \<le> c \<and> c \<le> 32) \<or> c = 133 \<or> c = 160 \<or> c = 5760 \<or>
     (8192 \<le> c \<and> c \<le> 8202) \<or> c = 8232 \<or> c = 8233 \<or> c = 8239 \<or> c = 8287 \<or> c = 12288"

definition strip :: "pystr \<Rightarrow> pystr" where
  "strip s = rev (dropWhile isspace (rev (dropWhile isspace s)))"

text \<open>
  \<open>str.lower\<close> and \<open>str.upper\<close>: the letters A to Z and a to z are mapped; every other
  code point is left as it is (Python's case tables for the rest of Unicode are not part
  of the program). No non-ASCII code point lower-cases to one of the letters of
  \<open>q\<close>, \<open>quit\<close>, \<open>exit\<close>, so the keyword test below is exact.
\<close>

definition lower_char :: "int \<Rightarrow> int" where
  "lower_char c = (if 65 \<le> c \<and> c \<le> 90 then c + 32 else c)"

definition upper_char :: "int \<Rightarrow> int" where
  "upper_char c = (if 97 \<le> c \<and> c \<le> 122 then c - 32 else c)"

definition lower :: "pystr \<Rightarrow> pystr" where
  "lower s = map lower_char s"

definition upper :: "pystr \<Rightarrow> pystr" where
  "upper s = map upper_char s"

definition startswith :: "pystr \<Rightarrow> pystr \<Rightarrow> bool" where
  "startswith s p \<longleftrightarrow> take (length p) s = p"

definition endswith :: "pystr \<Rightarrow> pystr \<Rightarrow> bool" where
  "endswith s p \<longleftrightarrow> length p \<le> length s \<and> drop (length s - length p) s = p"

text \<open>\<open>sep.join(xs)\<close>.\<close>

fun join :: "pystr \<Rightarrow> pystr list \<Rightarrow> pystr" where
  "join sep [] = []"
| "join sep [x] = x"
| "join sep (x # y # ys) = x @ sep @ join sep (y # ys)"

text \<open>
  \<open>int(s)\<close> for a token without white space: an optional sign, then decimal digits with
  single underscores allowed between digits. \<open>None\<close> is \<open>ValueError\<close>. Only the digits
  0 to 9 are recognised (Python also accepts the decimal digits of other scripts, and
  refuses literals of more than 4300 digits).
\<close>

definition is_digit :: "int \<Rightarrow> bool" where
  "is_digit c \<longleftrightarrow> 48 \<le> c \<and> c \<le> 57"

fun dec_lit :: "pystr \<Rightarrow> nat \<Rightarrow> nat option" where
  "dec_lit [] acc = Some acc"
| "dec_lit (c # cs) acc =
     (if is_digit c then dec_lit cs (10 * acc + nat (c - 48))
      else if c = 95 then
        (case cs of
           [] \<Rightarrow> None
         | d # ds \<Rightarrow> if is_digit d then dec_lit ds (10 * acc + nat (d - 48)) else None)
      else None)"

definition nat_lit :: "pystr \<Rightarrow> nat option" where
  "nat_lit s = (case s of [] \<Rightarrow> None | c # cs \<Rightarrow> if is_digit c then dec_lit cs (nat (c - 48)) else None)"

definition py_int :: "pystr \<Rightarrow> int option" where
  "py_int s =
     (case s of
        [] \<Rightarrow> None
      | c # cs \<Rightarrow>
          if c = 43 then map_option int (nat_lit cs)
          else if c = 45 then map_option (\<lambda>n. - int n) (nat_lit cs)
          else map_option int (nat_lit s))"

text \<open>\<open>str(n)\<close> for a natural number, and the format \<open>{idx:>2}\<close>.\<close>

fun str_nat :: "nat \<Rightarrow> pystr" where
  "str_nat n = (if n < 10 then [48 + int n] else str_nat (n div 10) @ [48 + int (n mod 10)])"

declare str_nat.simps [simp del]

definition rjust2 :: "pystr \<Rightarrow> pystr" where
  "rjust2 s = replicate (2 - length s) 32 @ s"

section \<open>The console\<close>

text \<open>
  The terminal is a list of pending input lines (as \<open>input()\<close> returns them, without the
  line end) and the chunks written so far to the two output streams. The record also
  holds the file system, whose type is the parameter \<open>'fs\<close> here and the directory tree
  of the next section where the program touches files.
\<close>

record 'fs world =
  fs :: 'fs
  stdin :: "pystr list"
  stdout :: "pystr list"
  stderr :: "pystr list"

definition print :: "pystr \<Rightarrow> 'fs world \<Rightarrow> 'fs world" where
  "print s w = w\<lparr>stdout := stdout w @ [s @ [10]]\<rparr>"

definition print_err :: "pystr \<Rightarrow> 'fs world \<Rightarrow> 'fs world" where
  "print_err s w = w\<lparr>stderr := stderr w @ [s @ [10]]\<rparr>"

definition input :: "pystr \<Rightarrow> 'fs world \<Rightarrow> (exn + pystr) \<times> 'fs world" where
  "input prompt w =
     (let w1 = w\<lparr>stdout := stdout w @ [prompt]\<rparr>
      in case stdin w1 of
           [] \<Rightarrow> (Inl EOFError, w1)
         | l # ls \<Rightarrow> (Inr l, w1\<lparr>stdin := ls\<rparr>))"

section \<open>Selection parser: \<open>_prompt_indices\<close>\<close>

text \<open>
  \<open>re.split(r"[,\s]+", raw)\<close>: the pieces between maximal runs of commas and white
  space, with an empty piece before a leading run and after a trailing one.
\<close>

definition is_sep :: "int \<Rightarrow> bool" where
  "is_sep c \<longleftrightarrow> c = 44 \<or> isspace c"

fun re_split :: "pystr \<Rightarrow> pystr list" where
  "re_split [] = [[]]"
| "re_split (c # cs) =
     (if is_sep c then
        (case cs of
           [] \<Rightarrow> [[], []]
         | d # ds \<Rightarrow> if is_sep d then re_split cs else [] # re_split cs)
      else
        (case re_split cs of
           [] \<Rightarrow> [[c]]
         | t # ts \<Rightarrow> (c # t) # ts))"

text \<open>
  The body of the loop over the parts: a part with a hyphen is split at the first hyphen
  into \<open>start_s\<close> and \<open>end_s\<close>, both are converted, swapped when \<open>start > end\<close>, and
  every \<open>i\<close> of \<open>range(start, end + 1)\<close> is added; any other part is converted and added.
\<close>

definition invalid_literal :: "pystr \<Rightarrow> exn" where
  "invalid_literal s = ValueError (str ''invalid literal for int() with base 10: '' @ [39] @ s @ [39])"

definition part_indices :: "pystr \<Rightarrow> exn + int set" where
  "part_indices part =
     (if 45 \<in> set part then
        (let start_s = takeWhile (\<lambda>c. c \<noteq> 45) part;
             end_s = tl (dropWhile (\<lambda>c. c \<noteq> 45) part)
         in case py_int start_s of
              None \<Rightarrow> Inl (invalid_literal start_s)
            | Some start \<Rightarrow>
                (case py_int end_s of
                   None \<Rightarrow> Inl (invalid_literal end_s)
                 | Some end' \<Rightarrow>
                     if start > end' then Inr {end' .. start} else Inr {start .. end'}))
      else
        (case py_int part of
           None \<Rightarrow> Inl (invalid_literal part)
         | Some i \<Rightarrow> Inr {i}))"

fun collect_indices :: "pystr list \<Rightarrow> int set \<Rightarrow> exn + int set" where
  "collect_indices [] indices = Inr indices"
| "collect_indices (part # parts) indices =
     (if part = [] then collect_indices parts indices
      else
        (case part_indices part of
           Inl e \<Rightarrow> Inl e
         | Inr new \<Rightarrow> collect_indices parts (indices \<union> new)))"

fun print_items :: "nat \<Rightarrow> pystr list \<Rightarrow> 'fs world \<Rightarrow> 'fs world" where
  "print_items idx [] w = w"
| "print_items idx (item # items) w =
     print_items (Suc idx) items (print (rjust2 (str_nat idx) @ str ''. '' @ item) w)"

definition quit_words :: "pystr set" where
  "quit_words = {str ''q'', str ''quit'', str ''exit''}"

definition prompt_indices :: "pystr list \<Rightarrow> pystr \<Rightarrow> 'fs world \<Rightarrow> (exn + int list) \<times> 'fs world" where
  "prompt_indices items prompt w =
     (if items = [] then (Inr [], w)
      else
        (case input prompt (print_items 1 items w) of
           (Inl e, w1) \<Rightarrow> (Inl e, w1)
         | (Inr line, w1) \<Rightarrow>
             (let raw = strip line
              in if raw = [] then (Inr [], w1)
                 else if lower raw \<in> quit_words then (Inl (SystemExit 0), w1)
                 else
                   (case collect_indices (re_split raw) {} of
                      Inl e \<Rightarrow> (Inl e, w1)
                    | Inr indices \<Rightarrow>
                        (let resolved =
                               sorted_list_of_set {i \<in> indices. 1 \<le> i \<and> i \<le> int (length items)}
                         in if resolved = [] then (Inl (ValueError (str ''No valid selections.'')), w1)
                            else (Inr resolved, w1))))))"

section \<open>Text files: UTF-8 and line ends\<close>

text \<open>
  \<open>bytes.decode("utf-8")\<close> in strict mode: one code point at a time; a byte that starts
  no sequence, a missing or wrong continuation byte, an overlong form, a surrogate and a
  value above \<open>0x10FFFF\<close> are all refused (\<open>None\<close>, which is \<open>UnicodeDecodeError\<close>).
\<close>

definition is_cont :: "byte \<Rightarrow> bool" where
  "is_cont b \<longleftrightarrow> 128 \<le> uint b \<and> uint b \<le> 191"

definition cont_bits :: "byte \<Rightarrow> int" where
  "cont_bits b = uint b - 128"

fun utf8_decode :: "byte list \<Rightarrow> pystr option" where
  "utf8_decode [] = Some []"
| "utf8_decode (b # bs) =
     (let n = uint b in
      if n < 128 then map_option ((#) n) (utf8_decode bs)
      else if 194 \<le> n \<and> n \<le> 223 then
        (case bs of
           c1 # r \<Rightarrow>
             if is_cont c1
             then map_option ((#) ((n - 192) * 64 + cont_bits c1)) (utf8_decode r)
             else None
         | _ \<Rightarrow> None)
      else if 224 \<le> n \<and> n \<le> 239 then
        (case bs of
           c1 # c2 # r \<Rightarrow>
             (let cp = (n - 224) * 4096 + cont_bits c1 * 64 + cont_bits c2 in
              if is_cont c1 \<and> is_cont c2 \<and> 2048 \<le> cp \<and> \<not> (55296 \<le> cp \<and> cp \<le> 57343)
              then map_option ((#) cp) (utf8_decode r)
              else None)
         | _ \<Rightarrow> None)
      else if 240 \<le> n \<and> n \<le> 244 then
        (case bs of
           c1 # c2 # c3 # r \<Rightarrow>
             (let cp = (n - 240) * 262144 + cont_bits c1 * 4096 + cont_bits c2 * 64 + cont_bits c3 in
              if is_cont c1 \<and> is_cont c2 \<and> is_cont c3 \<and> 65536 \<le> cp \<and> cp \<le> 1114111
              then map_option ((#) cp) (utf8_decode r)
              else None)
         | _ \<Rightarrow> None)
      else None)"

text \<open>
  \<open>str.encode("utf-8")\<close>: a surrogate cannot be encoded (\<open>None\<close>, which is
  \<open>UnicodeEncodeError\<close>); neither can an integer that is no code point.
\<close>

definition utf8_encode_char :: "int \<Rightarrow> byte list option" where
  "utf8_encode_char cp =
     (if cp < 0 \<or> cp > 1114111 \<or> (55296 \<le> cp \<and> cp \<le> 57343) then None
      else if cp < 128 then Some [word_of_int cp]
      else if cp < 2048 then Some [word_of_int (192 + cp div 64), word_of_int (128 + cp mod 64)]
      else if cp < 65536 then
        Some [word_of_int (224 + cp div 4096), word_of_int (128 + (cp div 64) mod 64),
              word_of_int (128 + cp mod 64)]
      else
        Some [word_of_int (240 + cp div 262144), word_of_int (128 + (cp div 4096) mod 64),
              word_of_int (128 + (cp div 64) mod 64), word_of_int (128 + cp mod 64)])"

fun utf8_encode :: "pystr \<Rightarrow> byte list option" where
  "utf8_encode [] = Some []"
| "utf8_encode (c # cs) =
     (case utf8_encode_char c of
        None \<Rightarrow> None
      | Some bs \<Rightarrow> map_option ((@) bs) (utf8_encode cs))"

text \<open>
  Reading in text mode with \<open>newline=None\<close> turns \<open>\r\n\<close> and a lone \<open>\r\<close> into
  \<open>\n\<close>; writing on POSIX leaves \<open>\n\<close> as it is.
\<close>

fun universal_newlines :: "pystr \<Rightarrow> pystr" where
  "universal_newlines [] = []"
| "universal_newlines (c # cs) =
     (if c = 13 then
        (case cs of
           d # ds \<Rightarrow> if d = 10 then 10 # universal_newlines ds else 10 # universal_newlines cs
         | [] \<Rightarrow> [10])
      else c # universal_newlines cs)"

text \<open>\<open>str.splitlines()\<close>, and \<open>str.split()\<close> without arguments.\<close>

definition is_linebreak :: "int \<Rightarrow> bool" where
  "is_linebreak c \<longleftrightarrow>
     (10 \<le> c \<and> c \<le> 13) \<or> (28 \<le> c \<and> c \<le> 30) \<or> c = 133 \<or> c = 8232 \<or> c = 8233"

fun splitlines_from :: "pystr \<Rightarrow> pystr \<Rightarrow> pystr list" where
  "splitlines_from [] cur = (if cur = [] then [] else [rev cur])"
| "splitlines_from (c # cs) cur =
     (if c = 13 then
        (case cs of
           d # ds \<Rightarrow>
             if d = 10 then rev cur # splitlines_from ds [] else rev cur # splitlines_from cs []
         | [] \<Rightarrow> [rev cur])
      else if is_linebreak c then rev cur # splitlines_from cs []
      else splitlines_from cs (c # cur))"

definition splitlines :: "pystr \<Rightarrow> pystr list" where
  "splitlines s = splitlines_from s []"

fun split_from :: "pystr \<Rightarrow> pystr \<Rightarrow> pystr list" where
  "split_from [] cur = (if cur = [] then [] else [rev cur])"
| "split_from (c # cs) cur =
     (if isspace c then (if cur = [] then split_from cs [] else rev cur # split_from cs [])
      else split_from cs (c # cur))"

definition str_split :: "pystr \<Rightarrow> pystr list" where
  "str_split s = split_from s []"

definition replace_char :: "int \<Rightarrow> int \<Rightarrow> pystr \<Rightarrow> pystr" where
  "replace_char old new s = map (\<lambda>c. if c = old then new else c) s"

section \<open>The file system\<close>

text \<open>
  The directory tree below \<open>REPO_ROOT\<close>: a node is a regular file with its bytes or a
  directory with its entries in the order a directory scan returns them. A path is the
  list of its components below \<open>REPO_ROOT\<close>. There are no symbolic links, and the
  platform is POSIX: names are compared as they are written.
\<close>

type_synonym path = "pystr list"

datatype node = File "byte list" | Dir "(pystr \<times> node) list"

text \<open>Path resolution, with the error the system call reports when it fails.\<close>

fun resolve :: "node \<Rightarrow> path \<Rightarrow> exn + node" where
  "resolve n [] = Inr n"
| "resolve (File c) (x # xs) = Inl NotADirectoryError"
| "resolve (Dir es) (x # xs) =
     (case map_of es x of
        None \<Rightarrow> Inl FileNotFoundError
      | Some n \<Rightarrow> resolve n xs)"

definition node_at :: "node \<Rightarrow> path \<Rightarrow> node option" where
  "node_at t p = (case resolve t p of Inl e \<Rightarrow> None | Inr n \<Rightarrow> Some n)"

text \<open>\<open>Path.exists()\<close>, \<open>Path.is_dir()\<close>, \<open>Path.is_file()\<close>.\<close>

definition path_exists :: "node \<Rightarrow> path \<Rightarrow> bool" where
  "path_exists t p \<longleftrightarrow> node_at t p \<noteq> None"

definition is_dir :: "node \<Rightarrow> path \<Rightarrow> bool" where
  "is_dir t p \<longleftrightarrow> (case node_at t p of Some (Dir es) \<Rightarrow> True | _ \<Rightarrow> False)"

definition is_file :: "node \<Rightarrow> path \<Rightarrow> bool" where
  "is_file t p \<longleftrightarrow> (case node_at t p of Some (File c) \<Rightarrow> True | _ \<Rightarrow> False)"

text \<open>
  Writing the entry \<open>p\<close> (its parent is an existing directory wherever this is used)
  and removing the entry \<open>p\<close>.
\<close>

fun put_node :: "node \<Rightarrow> path \<Rightarrow> node \<Rightarrow> node" where
  "put_node t [] n = n"
| "put_node (File c) (x # xs) n = File c"
| "put_node (Dir es) (x # xs) n =
     (case map_of es x of
        None \<Rightarrow> if xs = [] then Dir (AList.update x n es) else Dir es
      | Some c \<Rightarrow> Dir (AList.update x (put_node c xs n) es))"

fun del_node :: "node \<Rightarrow> path \<Rightarrow> node" where
  "del_node t [] = t"
| "del_node (File c) (x # xs) = File c"
| "del_node (Dir es) (x # xs) =
     (if xs = [] then Dir (AList.delete x es)
      else
        (case map_of es x of
           None \<Rightarrow> Dir es
         | Some c \<Rightarrow> Dir (AList.update x (del_node c xs) es)))"

text \<open>
  \<open>os.mkdir(p)\<close>: \<open>FileExistsError\<close> when \<open>p\<close> exists, \<open>FileNotFoundError\<close> when a
  component of its parent is missing, \<open>NotADirectoryError\<close> when one is a file.
\<close>

definition os_mkdir :: "node \<Rightarrow> path \<Rightarrow> exn + node" where
  "os_mkdir t p =
     (if p = [] then Inl FileExistsError
      else
        (case resolve t (butlast p) of
           Inl e \<Rightarrow> Inl e
         | Inr (File c) \<Rightarrow> Inl NotADirectoryError
         | Inr (Dir es) \<Rightarrow>
             (case map_of es (last p) of
                Some n \<Rightarrow> Inl FileExistsError
              | None \<Rightarrow> Inr (put_node t p (Dir [])))))"

text \<open>
  \<open>Path.mkdir(parents=False, exist_ok=exist_ok)\<close> and
  \<open>Path.mkdir(parents=True, exist_ok=True)\<close>, as pathlib writes them: try
  \<open>os.mkdir\<close>; on \<open>FileNotFoundError\<close> make the parent first (with parents) or raise;
  on any other \<open>OSError\<close> raise unless \<open>exist_ok\<close> holds and the path is a directory.
  The second returns the exception, if any, and the tree as the calls made so far left it.
\<close>

definition mkdir :: "node \<Rightarrow> path \<Rightarrow> bool \<Rightarrow> exn + node" where
  "mkdir t p exist_ok =
     (case os_mkdir t p of
        Inr t' \<Rightarrow> Inr t'
      | Inl e \<Rightarrow>
          if e = FileNotFoundError then Inl e
          else if \<not> exist_ok \<or> \<not> is_dir t p then Inl e
          else Inr t)"

function mkdir_parents :: "node \<Rightarrow> path \<Rightarrow> (exn + unit) \<times> node" where
  "mkdir_parents t p =
     (case os_mkdir t p of
        Inr t' \<Rightarrow> (Inr (), t')
      | Inl e \<Rightarrow>
          if e = FileNotFoundError then
            (if p = [] then (Inl e, t)
             else
               (case mkdir_parents t (butlast p) of
                  (Inl e', t1) \<Rightarrow> (Inl e', t1)
                | (Inr u, t1) \<Rightarrow>
                    (case mkdir t1 p True of
                       Inl e'' \<Rightarrow> (Inl e'', t1)
                     | Inr t2 \<Rightarrow> (Inr (), t2))))
          else if \<not> is_dir t p then (Inl e, t)
          else (Inr (), t))"
  by pat_completeness auto
termination
  by (relation "measure (\<lambda>(t, p). length p)") auto

declare mkdir_parents.simps [simp del]

text \<open>\<open>Path.unlink()\<close>.\<close>

definition unlink :: "node \<Rightarrow> path \<Rightarrow> exn + node" where
  "unlink t p =
     (case resolve t p of
        Inl e \<Rightarrow> Inl e
      | Inr (Dir es) \<Rightarrow> Inl IsADirectoryError
      | Inr (File c) \<Rightarrow> Inr (del_node t p))"

text \<open>
  \<open>os.rename(src, dst)\<close> within one file system: the source must exist, the
  destination must not lie inside the source, its parent must be a directory; a file
  replaces a file, a directory replaces an empty directory.
\<close>

definition os_rename :: "node \<Rightarrow> path \<Rightarrow> path \<Rightarrow> exn + node" where
  "os_rename t src dst =
     (case resolve t src of
        Inl e \<Rightarrow> Inl e
      | Inr n \<Rightarrow>
          if src = dst then Inr t
          else if prefix src dst then Inl OSError
          else
            (case resolve t (butlast dst) of
               Inl e \<Rightarrow> Inl e
             | Inr (File c) \<Rightarrow> Inl NotADirectoryError
             | Inr (Dir ps) \<Rightarrow>
                 (case (n, node_at t dst) of
                    (_, None) \<Rightarrow> Inr (put_node (del_node t src) dst n)
                  | (File c, Some (File d)) \<Rightarrow> Inr (put_node (del_node t src) dst n)
                  | (File c, Some (Dir es)) \<Rightarrow> Inl IsADirectoryError
                  | (Dir cs, Some (File d)) \<Rightarrow> Inl NotADirectoryError
                  | (Dir cs, Some (Dir es)) \<Rightarrow>
                      if es = [] then Inr (put_node (del_node t src) dst n) else Inl OSError)))"

text \<open>
  \<open>shutil.move(src, dst)\<close>: a destination that is a directory receives the source
  under its own name, unless that name is taken; then \<open>os.rename\<close>. When the rename
  fails, a source directory that contains the destination is refused, and for a source
  that is a file (or missing) the copy that is tried next fails as the rename did.
\<close>

definition basename :: "path \<Rightarrow> pystr" where
  "basename p = (if p = [] then [] else last p)"

definition shutil_move :: "node \<Rightarrow> path \<Rightarrow> path \<Rightarrow> exn + node" where
  "shutil_move t src dst =
     (let real_dst = (if is_dir t dst then dst @ [basename src] else dst)
      in if is_dir t dst \<and> path_exists t real_dst then Inl ShutilError
         else
           (case os_rename t src real_dst of
              Inr t' \<Rightarrow> Inr t'
            | Inl e \<Rightarrow>
                if is_dir t src \<and> prefix src real_dst then Inl ShutilError else Inl e))"

text \<open>
  \<open>Path.read_text(encoding="utf-8")\<close> and \<open>Path.write_text(text, encoding="utf-8")\<close>.
  Opening for writing empties the file before the text is encoded, so a text that cannot
  be encoded leaves an empty file behind.
\<close>

definition read_text :: "node \<Rightarrow> path \<Rightarrow> exn + pystr" where
  "read_text t p =
     (case resolve t p of
        Inl e \<Rightarrow> Inl e
      | Inr (Dir es) \<Rightarrow> Inl IsADirectoryError
      | Inr (File bs) \<Rightarrow>
          (case utf8_decode bs of
             None \<Rightarrow> Inl UnicodeDecodeError
           | Some s \<Rightarrow> Inr (universal_newlines s)))"

definition write_text :: "node \<Rightarrow> path \<Rightarrow> pystr \<Rightarrow> (exn + unit) \<times> node" where
  "write_text t p s =
     (if p = [] \<or> is_dir t p then (Inl IsADirectoryError, t)
      else
        (case resolve t (butlast p) of
           Inl e \<Rightarrow> (Inl e, t)
         | Inr (File c) \<Rightarrow> (Inl NotADirectoryError, t)
         | Inr (Dir es) \<Rightarrow>
             (case utf8_encode s of
                None \<Rightarrow> (Inl UnicodeEncodeError, put_node t p (File []))
              | Some bs \<Rightarrow> (Inr (), put_node t p (File bs)))))"

text \<open>
  The exceptions that \<open>except OSError\<close> catches: \<open>UnicodeDecodeError\<close> and
  \<open>UnicodeEncodeError\<close> are subclasses of \<open>ValueError\<close>, \<open>shutil.Error\<close> is a
  subclass of \<open>OSError\<close>.
\<close>

fun is_OSError :: "exn \<Rightarrow> bool" where
  "is_OSError FileExistsError = True"
| "is_OSError IsADirectoryError = True"
| "is_OSError NotADirectoryError = True"
| "is_OSError FileNotFoundError = True"
| "is_OSError ShutilError = True"
| "is_OSError OSError = True"
| "is_OSError UnicodeDecodeError = False"
| "is_OSError UnicodeEncodeError = False"
| "is_OSError (ValueError m) = False"
| "is_OSError (SystemExit c) = False"
| "is_OSError EOFError = False"
| "is_OSError IndexError = False"

text \<open>
  All entries below a directory, each with its path relative to that directory, in the
  order of a recursive scan. The tree is well formed when no directory has two entries
  of the same name.
\<close>

fun walk :: "node \<Rightarrow> (path \<times> node) list"
  and walk_entries :: "(pystr \<times> node) list \<Rightarrow> (path \<times> node) list" where
  "walk (File c) = []"
| "walk (Dir es) = walk_entries es"
| "walk_entries [] = []"
| "walk_entries ((name, child) # es) =
     ([name], child) # map (\<lambda>(q, n). (name # q, n)) (walk child) @ walk_entries es"

fun wf_node :: "node \<Rightarrow> bool"
  and wf_entries :: "(pystr \<times> node) list \<Rightarrow> bool" where
  "wf_node (File c) = True"
| "wf_node (Dir es) = wf_entries es"
| "wf_entries [] = True"
| "wf_entries ((name, child) # es) = (name \<notin> fst ` set es \<and> wf_node child \<and> wf_entries es)"

text \<open>
  The kind of a node, and for a file its content: what a change elsewhere in the tree
  leaves alone.
\<close>

fun shallow :: "node \<Rightarrow> node" where
  "shallow (File c) = File c"
| "shallow (Dir es) = Dir []"

section \<open>The program\<close>

subsection \<open>Paths and articles\<close>

definition DOCS_DIR :: path where
  "DOCS_DIR = [str ''docs'']"

definition DRAFTS_DIR :: path where
  "DRAFTS_DIR = [str ''drafts'']"

definition MKDOCS_YML :: path where
  "MKDOCS_YML = [str ''mkdocs.yml'']"

text \<open>
  \<open>str(p)\<close> and \<open>p.as_posix()\<close> for a path below \<open>REPO_ROOT\<close> (the prefix that
  \<open>str\<close> puts before it is the same for every path and does not change the order of
  the keys), \<open>p.relative_to(root)\<close> for a path that starts with \<open>root\<close>, \<open>p.suffix\<close>
  and \<open>p.stem\<close>.
\<close>

definition as_posix :: "path \<Rightarrow> pystr" where
  "as_posix p = join [47] p"

definition relative_to :: "path \<Rightarrow> path \<Rightarrow> path" where
  "relative_to p root = drop (length root) p"

definition rfind_dot :: "pystr \<Rightarrow> int" where
  "rfind_dot name =
     (if 46 \<in> set name
      then int (length name) - 1 - int (length (takeWhile (\<lambda>c. c \<noteq> 46) (rev name)))
      else - 1)"

definition path_suffix :: "path \<Rightarrow> pystr" where
  "path_suffix p =
     (let name = basename p; i = rfind_dot name
      in if 0 < i \<and> i < int (length name) - 1 then drop (nat i) name else [])"

definition path_stem :: "path \<Rightarrow> pystr" where
  "path_stem p =
     (let name = basename p; i = rfind_dot name
      in if 0 < i \<and> i < int (length name) - 1 then take (nat i) name else name)"

record article =
  root :: path
  relpath :: path

definition abspath :: "article \<Rightarrow> path" where
  "abspath a = root a @ relpath a"

definition is_markdown :: "article \<Rightarrow> bool" where
  "is_markdown a \<longleftrightarrow> lower (path_suffix (relpath a)) = str ''.md''"

subsection \<open>Article index: \<open>_iter_md_files\<close>, \<open>_articles_in_docs\<close>, \<open>_articles_in_drafts\<close>\<close>

text \<open>
  \<open>root.rglob("*.md")\<close>: every entry below the directory \<open>root\<close> whose name matches
  the pattern, that is, ends with \<open>.md\<close> as written (on POSIX pathlib matches names
  case-sensitively); nothing when \<open>root\<close> is not a directory.
\<close>

definition fnmatch_md :: "pystr \<Rightarrow> bool" where
  "fnmatch_md name \<longleftrightarrow> endswith name (str ''.md'')"

definition rglob_md :: "node \<Rightarrow> path \<Rightarrow> path list" where
  "rglob_md t r =
     (case node_at t r of
        Some (Dir es) \<Rightarrow>
          map (\<lambda>(q, n). r @ q) (filter (\<lambda>(q, n). fnmatch_md (basename q)) (walk (Dir es)))
      | _ \<Rightarrow> [])"

definition iter_md_files :: "node \<Rightarrow> path \<Rightarrow> path list" where
  "iter_md_files t r =
     (if \<not> path_exists t r then []
      else sort_key (\<lambda>p. lower (as_posix p)) (filter (is_file t) (rglob_md t r)))"

definition reserved :: "path set" where
  "reserved = {[str ''index.md''], [str ''about.md'']}"

definition articles_in_docs :: "node \<Rightarrow> article list" where
  "articles_in_docs t =
     (if \<not> path_exists t DOCS_DIR then []
      else
        map (\<lambda>rel. \<lparr>root = DOCS_DIR, relpath = rel\<rparr>)
          (filter (\<lambda>rel. rel \<notin> reserved)
             (map (\<lambda>md. relative_to md DOCS_DIR) (iter_md_files t DOCS_DIR))))"

definition articles_in_drafts :: "node \<Rightarrow> article list" where
  "articles_in_drafts t =
     (if \<not> path_exists t DRAFTS_DIR then []
      else
        map (\<lambda>p. \<lparr>root = DRAFTS_DIR, relpath = relative_to p DRAFTS_DIR\<rparr>)
          (iter_md_files t DRAFTS_DIR))"

subsection \<open>Title extraction: \<open>_read_title\<close>\<close>

fun first_heading :: "pystr list \<Rightarrow> pystr option" where
  "first_heading [] = None"
| "first_heading (l # ls) =
     (let line = strip l
      in if startswith line (str ''# '') then Some (strip (drop 2 line)) else first_heading ls)"

definition fallback_title :: "path \<Rightarrow> pystr" where
  "fallback_title md_path =
     (let name = strip (replace_char 45 32 (replace_char 95 32 (path_stem md_path)))
      in join [32] (map (\<lambda>w. upper (take 1 w) @ drop 1 w) (filter (\<lambda>w. w \<noteq> []) (str_split name))))"

definition read_title :: "node \<Rightarrow> path \<Rightarrow> exn + pystr" where
  "read_title t md_path =
     (case read_text t md_path of
        Inl e \<Rightarrow> if is_OSError e then Inr (fallback_title md_path) else Inl e
      | Inr text \<Rightarrow>
          (case first_heading (splitlines text) of
             Some title \<Rightarrow> Inr title
           | None \<Rightarrow> Inr (fallback_title md_path)))"

subsection \<open>Mover: \<open>_move_article\<close>\<close>

text \<open>
  The result is the exception raised, if any, and the file system as the call leaves it.
\<close>

definition move_article :: "path \<Rightarrow> path \<Rightarrow> path \<Rightarrow> bool \<Rightarrow> node \<Rightarrow> (exn + unit) \<times> node" where
  "move_article src_root dst_root rel force t =
     (let src = src_root @ rel; dst = dst_root @ rel
      in case mkdir_parents t (butlast dst) of
           (Inl e, t1) \<Rightarrow> (Inl e, t1)
         | (Inr u, t1) \<Rightarrow>
             if path_exists t1 dst then
               (if \<not> force then (Inl FileExistsError, t1)
                else if is_dir t1 dst then (Inl IsADirectoryError, t1)
                else
                  (case unlink t1 dst of
                     Inl e \<Rightarrow> (Inl e, t1)
                   | Inr t2 \<Rightarrow>
                       (case shutil_move t2 src dst of
                          Inl e \<Rightarrow> (Inl e, t2)
                        | Inr t3 \<Rightarrow> (Inr (), t3))))
             else
               (case shutil_move t1 src dst of
                  Inl e \<Rightarrow> (Inl e, t1)
                | Inr t3 \<Rightarrow> (Inr (), t3)))"

subsection \<open>Manifest synthesizer: \<open>_render_nav_yaml\<close>\<close>

fun section_items_of :: "node \<Rightarrow> path list \<Rightarrow> exn + (pystr \<times> pystr) list" where
  "section_items_of t [] = Inr []"
| "section_items_of t (md # mds) =
     (let rel = as_posix (relative_to md DOCS_DIR)
      in case read_title t md of
           Inl e \<Rightarrow> Inl e
         | Inr title \<Rightarrow>
             (case section_items_of t mds of
                Inl e \<Rightarrow> Inl e
              | Inr items \<Rightarrow> Inr ((title, rel) # items)))"

definition section_items :: "node \<Rightarrow> path \<Rightarrow> exn + (pystr \<times> pystr) list" where
  "section_items t section_dir =
     (if \<not> path_exists t section_dir then Inr []
      else section_items_of t (iter_md_files t section_dir))"

definition item_line :: "pystr \<times> pystr \<Rightarrow> pystr" where
  "item_line item = str ''      - '' @ fst item @ str '': '' @ snd item"

definition section_lines :: "pystr \<Rightarrow> (pystr \<times> pystr) list \<Rightarrow> pystr list" where
  "section_lines header items = (if items = [] then [] else header # map item_line items)"

definition llm_header :: pystr where
  "llm_header = str ''  - LLM Notes:''"

definition agent_header :: pystr where
  "agent_header = str ''  - Agent Architectures:''"

definition science_header :: pystr where
  "science_header = str ''  - AI for Science:''"

text \<open>The list \<open>lines\<close> that the function builds, and the text it returns.\<close>

definition render_nav_lines :: "node \<Rightarrow> exn + pystr list" where
  "render_nav_lines t =
     (case section_items t (DOCS_DIR @ [str ''llm'']) of
        Inl e \<Rightarrow> Inl e
      | Inr llm_items \<Rightarrow>
          (case section_items t (DOCS_DIR @ [str ''agents'']) of
             Inl e \<Rightarrow> Inl e
           | Inr agent_items \<Rightarrow>
               (case section_items t (DOCS_DIR @ [str ''ai_for_science'']) of
                  Inl e \<Rightarrow> Inl e
                | Inr science_items \<Rightarrow>
                    Inr ([str ''nav:'', str ''  - Home: index.md'']
                         @ section_lines llm_header llm_items
                         @ section_lines agent_header agent_items
                         @ section_lines science_header science_items
                         @ [str ''  - About: about.md'']))))"

definition render_nav_yaml :: "node \<Rightarrow> exn + pystr" where
  "render_nav_yaml t =
     (case render_nav_lines t of
        Inl e \<Rightarrow> Inl e
      | Inr lines \<Rightarrow> Inr (join [10] lines @ [10]))"

subsection \<open>Splicing the manifest into the configuration: \<open>_update_mkdocs_nav\<close>\<close>

text \<open>
  \<open>re.search(r"(?m)^nav:\s*$", text)\<close>. In multi-line mode \<open>^\<close> matches at the start
  of the text and after every \<open>\n\<close>, and \<open>$\<close> at the end of the text and before every
  \<open>\n\<close>. After \<open>nav:\<close> the pattern takes white space, which includes \<open>\n\<close>, until
  \<open>$\<close> matches. \<open>nav_search\<close> gives \<open>match.start()\<close> of the leftmost match.
\<close>

fun space_then_eol :: "pystr \<Rightarrow> bool" where
  "space_then_eol [] = True"
| "space_then_eol (c # cs) = (c = 10 \<or> (isspace c \<and> space_then_eol cs))"

definition nav_match_here :: "pystr \<Rightarrow> bool" where
  "nav_match_here s \<longleftrightarrow> startswith s (str ''nav:'') \<and> space_then_eol (drop 4 s)"

fun nav_search_from :: "pystr \<Rightarrow> bool \<Rightarrow> nat \<Rightarrow> nat option" where
  "nav_search_from [] line_start i = None"
| "nav_search_from (c # cs) line_start i =
     (if line_start \<and> nav_match_here (c # cs) then Some i
      else nav_search_from cs (c = 10) (Suc i))"

definition nav_search :: "pystr \<Rightarrow> nat option" where
  "nav_search text = nav_search_from text True 0"

text \<open>
  Where the pattern matches: at an offset \<open>j\<close> inside the text that starts a line
  (for \<open>j = 0\<close> the flag says whether the text itself starts at a line start) and
  from which \<open>nav:\<close>, white space and a line end or the end of the text follow.
\<close>

definition nav_match_at :: "pystr \<Rightarrow> bool \<Rightarrow> nat \<Rightarrow> bool" where
  "nav_match_at s starts_line j \<longleftrightarrow>
     j < length s \<and> (if j = 0 then starts_line else s ! (j - 1) = 10) \<and> nav_match_here (drop j s)"

text \<open>The text that is written back, from the text read and the rendered manifest.\<close>

definition spliced_text :: "pystr \<Rightarrow> pystr \<Rightarrow> pystr" where
  "spliced_text text nav_yaml =
     (case nav_search text of
        None \<Rightarrow> (if endswith text [10] then text else text @ [10]) @ [10] @ nav_yaml
      | Some i \<Rightarrow> take i text @ nav_yaml)"

definition update_mkdocs_nav :: "node \<Rightarrow> (exn + unit) \<times> node" where
  "update_mkdocs_nav t =
     (if \<not> path_exists t MKDOCS_YML then (Inl FileNotFoundError, t)
      else
        (case read_text t MKDOCS_YML of
           Inl e \<Rightarrow> (Inl e, t)
         | Inr text \<Rightarrow>
             (case render_nav_yaml t of
                Inl e \<Rightarrow> (Inl e, t)
              | Inr nav_yaml \<Rightarrow> write_text t MKDOCS_YML (spliced_text text nav_yaml))))"

subsection \<open>Commands: \<open>_list\<close> and \<open>_interactive\<close>\<close>

fun print_all :: "pystr list \<Rightarrow> 'fs world \<Rightarrow> 'fs world" where
  "print_all [] w = w"
| "print_all (l # ls) w = print_all ls (print l w)"

definition print_articles :: "article list \<Rightarrow> 'fs world \<Rightarrow> 'fs world" where
  "print_articles as w =
     (if as = [] then print (str ''  (none)'') w
      else print_all (map (\<lambda>a. str ''  - '' @ as_posix (relpath a)) as) w)"

definition list_cmd :: "node world \<Rightarrow> (exn + int) \<times> node world" where
  "list_cmd w =
     (let w1 = print (str ''Published (docs/):'') w;
          w2 = print_articles (articles_in_docs (fs w1)) w1;
          w3 = print ([10] @ str ''Drafts (drafts/):'') w2;
          w4 = print_articles (articles_in_drafts (fs w3)) w3
      in (Inr 0, w4))"

text \<open>
  The loop over the picked indices: each article is moved and reported; the first move
  that raises ends the loop, with the file system as the moves before it left it.
\<close>

fun move_picked ::
  "path \<Rightarrow> path \<Rightarrow> article list \<Rightarrow> pystr \<Rightarrow> bool \<Rightarrow> int list \<Rightarrow> node world \<Rightarrow> (exn + unit) \<times> node world" where
  "move_picked src_root dst_root src_items label force [] w = (Inr (), w)"
| "move_picked src_root dst_root src_items label force (idx # picked) w =
     (if idx < 1 \<or> int (length src_items) < idx then (Inl IndexError, w)
      else
        (let a = src_items ! nat (idx - 1)
         in case move_article src_root dst_root (relpath a) force (fs w) of
              (Inl e, t) \<Rightarrow> (Inl e, w\<lparr>fs := t\<rparr>)
            | (Inr u, t) \<Rightarrow>
                move_picked src_root dst_root src_items label force picked
                  (print (label @ str ''ed: '' @ as_posix (relpath a)) (w\<lparr>fs := t\<rparr>))))"

definition select_prompt :: pystr where
  "select_prompt = str ''Select items (e.g. 1 2 5-7), Enter to cancel: ''"

text \<open>
  The part of \<open>_interactive\<close> after the menu choice has fixed the two roots, the
  candidates and the label.
\<close>

definition move_selected ::
  "path \<Rightarrow> path \<Rightarrow> article list \<Rightarrow> pystr \<Rightarrow> bool \<Rightarrow> node world \<Rightarrow> (exn + int) \<times> node world" where
  "move_selected src_root dst_root src_items label force w =
     (if src_items = [] then
        (Inr 0, print (str ''No articles available to '' @ lower label @ str ''.'') w)
      else
        (case prompt_indices (map (\<lambda>a. as_posix (relpath a)) src_items) select_prompt w of
           (Inl (ValueError m), w1) \<Rightarrow> (Inr 2, print_err m w1)
         | (Inl e, w1) \<Rightarrow> (Inl e, w1)
         | (Inr picked, w1) \<Rightarrow>
             (case move_picked src_root dst_root src_items label force picked w1 of
                (Inl e, w2) \<Rightarrow> (Inl e, w2)
              | (Inr u, w2) \<Rightarrow>
                  (case update_mkdocs_nav (fs w2) of
                     (Inl e, t) \<Rightarrow> (Inl e, w2\<lparr>fs := t\<rparr>)
                   | (Inr u', t) \<Rightarrow> (Inr 0, print (str ''Updated mkdocs nav.'') (w2\<lparr>fs := t\<rparr>))))))"

definition interactive :: "bool \<Rightarrow> node world \<Rightarrow> (exn + int) \<times> node world" where
  "interactive force w =
     (case mkdir (fs w) DRAFTS_DIR True of
        Inl e \<Rightarrow> (Inl e, w)
      | Inr t \<Rightarrow>
          (let w1 = print_all
                      [str ''Choose an action:'',
                       str ''  1) Unpublish (move docs/ -> drafts/)'',
                       str ''  2) Publish   (move drafts/ -> docs/)'',
                       str ''  3) List'']
                      (w\<lparr>fs := t\<rparr>)
           in case input (str ''Enter 1/2/3 (or q): '') w1 of
                (Inl e, w2) \<Rightarrow> (Inl e, w2)
              | (Inr line, w2) \<Rightarrow>
                  (let choice = lower (strip line)
                   in if choice \<in> quit_words then (Inr 0, w2)
                      else if choice = str ''3'' then list_cmd w2
                      else if choice = str ''1'' then
                        move_selected DOCS_DIR DRAFTS_DIR (articles_in_docs (fs w2))
                          (str ''Unpublish'') force w2
                      else if choice = str ''2'' then
                        move_selected DRAFTS_DIR DOCS_DIR (articles_in_drafts (fs w2))
                          (str ''Publish'') force w2
                      else (Inr 2, print_err (str ''Invalid choice.'') w2))))"

section \<open>Example inputs\<close>

text \<open>Concrete inputs on which the definitions above are evaluated below.\<close>

definition bytes :: "string \<Rightarrow> byte list" where
  "bytes s = map of_char s"

definition five_items :: "pystr list" where
  "five_items = [str ''a.md'', str ''b.md'', str ''c.md'', str ''d.md'', str ''e.md'']"

definition console :: "pystr list \<Rightarrow> unit world" where
  "console lines = \<lparr>fs = (), stdin = lines, stdout = [], stderr = []\<rparr>"

text \<open>
  A small site: three notes and a file \<open>X.MD\<close> under \<open>docs/llm\<close>, an empty
  \<open>docs/agents\<close>, and under \<open>drafts/llm\<close> a file \<open>b_note.md\<close> and a directory
  \<open>c.md\<close>.
\<close>

definition site :: node where
  "site = Dir [
     (str ''docs'', Dir [
        (str ''index.md'', File (bytes ''# Home'' @ [10])),
        (str ''about.md'', File (bytes ''# About'' @ [10])),
        (str ''llm'', Dir [
           (str ''b_note.md'', File (bytes ''no heading'' @ [10])),
           (str ''a.md'', File (bytes ''# Hello World'' @ [10])),
           (str ''X.MD'', File (bytes ''# Shout'' @ [10])),
           (str ''c.md'', File (bytes ''# C'' @ [10]))]),
        (str ''agents'', Dir [])]),
     (str ''drafts'', Dir [
        (str ''llm'', Dir [
           (str ''b_note.md'', File (bytes ''old draft'' @ [10])),
           (str ''c.md'', Dir [])])]),
     (str ''mkdocs.yml'', File (bytes ''site_name: x'' @ [10]))]"

definition session :: "pystr list \<Rightarrow> node world" where
  "session lines = \<lparr>fs = site, stdin = lines, stdout = [], stderr = []\<rparr>"

definition a_md :: path where
  "a_md = [str ''llm'', str ''a.md'']"

definition b_note_md :: path where
  "b_note_md = [str ''llm'', str ''b_note.md'']"

definition c_md :: path where
  "c_md = [str ''llm'', str ''c.md'']"

text \<open>
  Configuration documents: one whose first \<open>nav:\<close> line carries a trailing blank and is
  followed by a line that is exactly \<open>nav:\<close>, one with only the former, one without any.
\<close>

definition config_two_navs :: pystr where
  "config_two_navs =
     str ''site_name: x'' @ [10] @ str ''nav: '' @ [10] @ str ''extra: 1'' @ [10]
     @ str ''nav:'' @ [10] @ str ''  - Old: old.md'' @ [10]"

definition config_blank_nav :: pystr where
  "config_blank_nav = str ''site_name: x'' @ [10] @ str ''nav: '' @ [10] @ str ''extra: 1'' @ [10]"

definition config_no_nav :: pystr where
  "config_no_nav = str ''site_name: x''"

text \<open>
  The bytes of a text of ASCII characters; a site that holds a configuration document
  and no notes, and the manifest rendered for it; a configuration document whose lines end
  with \<open>\r\n\<close>.
\<close>

definition ascii_bytes :: "pystr \<Rightarrow> byte list" where
  "ascii_bytes s = map word_of_int s"

definition config_site :: "byte list \<Rightarrow> node" where
  "config_site cfg = Dir [
     (str ''docs'', Dir [(str ''index.md'', File (bytes ''# Home'' @ [10]))]),
     (str ''mkdocs.yml'', File cfg)]"

definition config_crlf :: "byte list" where
  "config_crlf =
     bytes ''site_name: x'' @ [13, 10] @ bytes ''nav:'' @ [13, 10]
     @ bytes ''  - Old: old.md'' @ [13, 10]"

definition bare_nav :: pystr where
  "bare_nav =
     str ''nav:'' @ [10] @ str ''  - Home: index.md'' @ [10] @ str ''  - About: about.md'' @ [10]"

text \<open>
  A site whose only note was saved in Latin-1: the bytes of \<open># Caf\<close>, the byte
  \<open>0xE9\<close> and a line end, which is not valid UTF-8.
\<close>

definition latin1_site :: node where
  "latin1_site = Dir [
     (str ''docs'', Dir [
        (str ''llm'', Dir [(str ''cafe.md'', File (bytes ''# Caf'' @ [0xE9, 10]))])]),
     (str ''mkdocs.yml'', File (bytes ''site_name: x'' @ [10]))]"

definition cafe_md :: path where
  "cafe_md = [str ''docs'', str ''llm'', str ''cafe.md'']"

text \<open>
  Stages of two runs on the small site: the world after the selection \<open>1 2\<close> has been
  read in unpublish mode, the world after the loop over the picked articles, and the
  world after a whole run in which the selection line is empty.
\<close>

definition after_prompt :: "node world" where
  "after_prompt =
     snd (prompt_indices (map (\<lambda>a. as_posix (relpath a)) (articles_in_docs site))
            select_prompt (session [str ''1 2'']))"

definition after_moves :: "node world" where
  "after_moves =
     snd (move_picked DOCS_DIR DRAFTS_DIR (articles_in_docs site) (str ''Unpublish'') False
            [1, 2] after_prompt)"

definition after_cancel :: "node world" where
  "after_cancel = snd (interactive False (session [str ''1'', []]))"

section \<open>Verification\<close>

subsection \<open>Selection parser\<close>

lemma part_indices_finite: "part_indices part = Inr new \<Longrightarrow> finite new"
  by (auto simp: part_indices_def Let_def split: if_splits option.splits)

lemma collect_indices_finite:
  "collect_indices parts indices = Inr res \<Longrightarrow> finite indices \<Longrightarrow> finite res"
proof (induction parts arbitrary: indices)
  case Nil
  then show ?case by simp
next
  case (Cons part parts)
  then show ?case
    by (auto split: if_splits sum.splits dest: part_indices_finite)
qed

lemma split_at_hyphen:
  assumes "45 \<notin> set a"
  shows "takeWhile (\<lambda>c. c \<noteq> 45) (a @ 45 # b) = a"
    and "dropWhile (\<lambda>c. c \<noteq> (45::int)) (a @ 45 # b) = 45 # b"
  using assms by (induction a) auto

lemma part_indices_range:
  assumes "45 \<notin> set a" and "py_int a = Some s" and "py_int b = Some e"
  shows "part_indices (a @ 45 # b) = Inr {min s e .. max s e}"
  using assms by (auto simp: part_indices_def split_at_hyphen min_def max_def)

lemma prompt_indices_Inr:
  assumes "prompt_indices items prompt w = (Inr res, w')"
  shows "res = [] \<or> (\<exists>indices. finite indices \<and>
           res = sorted_list_of_set {i \<in> indices. 1 \<le> i \<and> i \<le> int (length items)})"
proof (cases "items = []")
  case True
  with assms show ?thesis by (simp add: prompt_indices_def)
next
  case False
  obtain r w1 where i: "input prompt (print_items 1 items w) = (r, w1)"
    by (cases "input prompt (print_items 1 items w)")
  show ?thesis
  proof (cases r)
    case (Inl e)
    with assms False i show ?thesis by (simp add: prompt_indices_def)
  next
    case (Inr line)
    show ?thesis
    proof (cases "collect_indices (re_split (strip line)) {}")
      case (Inl e)
      with assms False i Inr show ?thesis
        by (simp add: prompt_indices_def Let_def split: if_splits)
    next
      case c: (Inr indices)
      then have "finite indices" by (rule collect_indices_finite) simp
      with assms False i Inr c show ?thesis
        by (auto simp add: prompt_indices_def Let_def split: if_splits)
    qed
  qed
qed

text \<open>
  Claim C5. Whenever \<open>_prompt_indices\<close> returns a list, its elements lie in the inclusive
  range from 1 to the number of items, in ascending order and without duplicates, however
  the tokens repeat or overlap: the line \<open>1,1,2-3,2\<close> with five items gives \<open>[1, 2, 3]\<close>.
  A range token whose start exceeds its end is expanded as the swapped range, so
  \<open>3-1\<close> with five items also gives \<open>[1, 2, 3]\<close>.
\<close>

theorem prompt_indices_sorted_distinct_in_range:
  "(prompt_indices items prompt w = (Inr res, w') \<longrightarrow>
      sorted res \<and> distinct res \<and> (\<forall>i \<in> set res. 1 \<le> i \<and> i \<le> int (length items)))
   \<and> fst (prompt_indices five_items prompt (console [str ''1,1,2-3,2''])) = Inr [1, 2, 3]
   \<and> (45 \<notin> set a \<and> py_int a = Some s \<and> py_int b = Some e \<and> s > e \<longrightarrow>
        part_indices (a @ 45 # b) = Inr {e .. s})
   \<and> fst (prompt_indices five_items prompt (console [str ''3-1''])) = Inr [1, 2, 3]"
proof (intro conjI impI)
  assume "prompt_indices items prompt w = (Inr res, w')"
  then consider "res = []"
    | indices where "finite indices"
        "res = sorted_list_of_set {i \<in> indices. 1 \<le> i \<and> i \<le> int (length items)}"
    using prompt_indices_Inr by blast
  then have "sorted res \<and> distinct res \<and> (\<forall>i \<in> set res. 1 \<le> i \<and> i \<le> int (length items))"
    by cases auto
  then show "sorted res" and "distinct res"
    and "\<forall>i \<in> set res. 1 \<le> i \<and> i \<le> int (length items)"
    by simp_all
next
  show "fst (prompt_indices five_items prompt (console [str ''1,1,2-3,2''])) = Inr [1, 2, 3]"
    by code_simp
next
  assume "45 \<notin> set a \<and> py_int a = Some s \<and> py_int b = Some e \<and> s > e"
  then show "part_indices (a @ 45 # b) = Inr {e .. s}"
    using part_indices_range [of a s b e] by (simp add: min_def max_def)
next
  show "fst (prompt_indices five_items prompt (console [str ''3-1''])) = Inr [1, 2, 3]"
    by code_simp
qed

theorem prompt_indices_sorted_distinct_in_range_witness:
  "prompt_indices five_items select_prompt (console [str ''1,1,2-3,2''])
     = (Inr [1, 2, 3], snd (prompt_indices five_items select_prompt (console [str ''1,1,2-3,2''])))
   \<and> sorted [1, 2, 3 :: int] \<and> distinct [1, 2, 3 :: int]
   \<and> set [1, 2, 3 :: int] \<subseteq> {1 .. int (length five_items)}
   \<and> 45 \<notin> set (str ''3'') \<and> py_int (str ''3'') = Some 3 \<and> py_int (str ''1'') = Some 1
   \<and> part_indices (str ''3'' @ 45 # str ''1'') = Inr {1 .. 3}"
proof -
  have run: "prompt_indices five_items select_prompt (console [str ''1,1,2-3,2''])
     = (Inr [1, 2, 3], snd (prompt_indices five_items select_prompt (console [str ''1,1,2-3,2''])))"
    by code_simp
  have tok: "45 \<notin> set (str ''3'') \<and> py_int (str ''3'') = Some 3 \<and> py_int (str ''1'') = Some 1
               \<and> (3::int) > 1"
    by code_simp
  show ?thesis
    using run tok
      prompt_indices_sorted_distinct_in_range
        [of five_items select_prompt "console [str ''1,1,2-3,2'']" "[1, 2, 3]"
            "snd (prompt_indices five_items select_prompt (console [str ''1,1,2-3,2'']))"
            "str ''3''" 3 "str ''1''" 1]
    by auto
qed

subsection \<open>Path resolution and changes of the tree\<close>

lemma node_at_Nil [simp]: "node_at t [] = Some t"
  by (simp add: node_at_def)

lemma node_at_File_Cons [simp]: "node_at (File c) (x # xs) = None"
  by (simp add: node_at_def)

lemma node_at_Dir_Cons [simp]:
  "node_at (Dir es) (x # xs) = (case map_of es x of None \<Rightarrow> None | Some n \<Rightarrow> node_at n xs)"
  by (simp add: node_at_def split: option.splits)

lemma resolve_error: "resolve t p = Inl e \<Longrightarrow> e = NotADirectoryError \<or> e = FileNotFoundError"
  by (induction t p rule: resolve.induct) (auto split: option.splits)

lemma resolve_Inr: "resolve t p = Inr n \<longleftrightarrow> node_at t p = Some n"
  by (simp add: node_at_def split: sum.splits)

lemma node_at_append:
  "node_at t (p @ q) = (case node_at t p of None \<Rightarrow> None | Some n \<Rightarrow> node_at n q)"
proof (induction p arbitrary: t)
  case Nil
  show ?case by simp
next
  case (Cons x xs)
  show ?case by (cases t) (simp_all add: Cons split: option.splits)
qed

lemma node_at_snoc:
  "node_at t (p @ [x]) =
     (case node_at t p of
        Some (Dir es) \<Rightarrow> map_of es x
      | _ \<Rightarrow> None)"
  by (simp add: node_at_append split: option.splits node.splits)

lemma node_at_butlast:
  assumes "node_at t p = Some n" and "p \<noteq> []"
  shows "\<exists>es. node_at t (butlast p) = Some (Dir es) \<and> map_of es (last p) = Some n"
proof -
  from assms(2) have "p = butlast p @ [last p]" by simp
  with assms(1) have "node_at t (butlast p @ [last p]) = Some n" by simp
  then show ?thesis
    by (auto simp: node_at_snoc split: option.splits node.splits)
qed

lemma file_has_no_descendant:
  assumes "node_at t p = Some (File c)" and "prefix p q" and "node_at t q \<noteq> None"
  shows "q = p"
proof -
  from assms(2) obtain r where q: "q = p @ r" by (auto simp: prefix_def)
  with assms(1,3) have "node_at (File c) r \<noteq> None" by (simp add: node_at_append)
  then have "r = []" by (cases r) simp_all
  with q show ?thesis by simp
qed

lemma shallow_File [simp]: "shallow n = File c \<longleftrightarrow> n = File c"
  by (cases n) simp_all

lemma node_at_put_node_other:
  "\<not> prefix p q \<Longrightarrow>
     map_option shallow (node_at (put_node t p n) q) = map_option shallow (node_at t q)"
proof (induction p arbitrary: t q)
  case Nil
  then show ?case by simp
next
  case (Cons x xs)
  show ?case
  proof (cases t)
    case (File c)
    then show ?thesis by simp
  next
    case (Dir es)
    show ?thesis
    proof (cases q)
      case Nil
      with Dir show ?thesis by (simp split: option.splits)
    next
      case q: (Cons y ys)
      show ?thesis
      proof (cases "y = x")
        case False
        with Dir q show ?thesis
          by (simp add: update_conv' split: option.splits)
      next
        case True
        with Cons.prems q have np: "\<not> prefix xs ys" by simp
        show ?thesis
        proof (cases "map_of es x")
          case None
          with np Dir q True show ?thesis by (cases xs) simp_all
        next
          case (Some c)
          with Cons.IH [OF np, of c] Dir q True show ?thesis
            by (simp add: update_conv')
        qed
      qed
    qed
  qed
qed

lemma node_at_del_node_other:
  "\<not> prefix p q \<Longrightarrow>
     map_option shallow (node_at (del_node t p) q) = map_option shallow (node_at t q)"
proof (induction p arbitrary: t q)
  case Nil
  then show ?case by simp
next
  case (Cons x xs)
  show ?case
  proof (cases t)
    case (File c)
    then show ?thesis by simp
  next
    case (Dir es)
    show ?thesis
    proof (cases q)
      case Nil
      with Dir show ?thesis by (simp split: option.splits)
    next
      case q: (Cons y ys)
      show ?thesis
      proof (cases "y = x")
        case False
        with Dir q show ?thesis
          by (simp add: update_conv' delete_conv' split: option.splits)
      next
        case True
        with Cons.prems q have np: "\<not> prefix xs ys" by simp
        then have "xs \<noteq> []" by auto
        show ?thesis
        proof (cases "map_of es x")
          case None
          with \<open>xs \<noteq> []\<close> Dir q True show ?thesis by simp
        next
          case (Some c)
          with Cons.IH [OF np, of c] \<open>xs \<noteq> []\<close> Dir q True show ?thesis
            by (simp add: update_conv')
        qed
      qed
    qed
  qed
qed

lemma node_at_del_node_same:
  "p \<noteq> [] \<Longrightarrow> node_at (del_node t p) p = None"
proof (induction p arbitrary: t)
  case Nil
  then show ?case by simp
next
  case (Cons x xs)
  show ?case
  proof (cases t)
    case (File c)
    then show ?thesis by simp
  next
    case (Dir es)
    show ?thesis
    proof (cases "xs = []")
      case True
      with Dir show ?thesis by (simp add: delete_conv')
    next
      case False
      with Cons.IH [OF False] Dir show ?thesis
        by (simp add: update_conv' split: option.splits)
    qed
  qed
qed

lemma node_at_put_node_same:
  "p \<noteq> [] \<Longrightarrow> is_dir t (butlast p) \<Longrightarrow> node_at (put_node t p n) p = Some n"
proof (induction p arbitrary: t)
  case Nil
  then show ?case by simp
next
  case (Cons x xs)
  show ?case
  proof (cases t)
    case (File c)
    with Cons.prems show ?thesis by (cases xs) (simp_all add: is_dir_def)
  next
    case (Dir es)
    show ?thesis
    proof (cases "xs = []")
      case True
      with Dir show ?thesis by (simp add: update_conv' split: option.splits)
    next
      case False
      with Cons.prems Dir obtain c where c: "map_of es x = Some c" and "is_dir c (butlast xs)"
        by (auto simp: is_dir_def split: option.splits)
      with Cons.IH [OF False, of c] Dir show ?thesis
        by (simp add: update_conv')
    qed
  qed
qed

lemma is_dir_shallow: "is_dir t p \<longleftrightarrow> map_option shallow (node_at t p) = Some (Dir [])"
  by (auto simp: is_dir_def split: option.splits node.splits)

lemma path_exists_shallow: "path_exists t p \<longleftrightarrow> map_option shallow (node_at t p) \<noteq> None"
  by (simp add: path_exists_def)

lemma is_file_shallow: "node_at t p = Some (File c) \<longleftrightarrow> map_option shallow (node_at t p) = Some (File c)"
  by auto


subsection \<open>Creating directories\<close>

lemma os_mkdir_Inr:
  assumes "os_mkdir t p = Inr t'"
  shows "p \<noteq> []" and "is_dir t (butlast p)" and "node_at t p = None"
    and "t' = put_node t p (Dir [])"
proof -
  from assms show ne: "p \<noteq> []" by (auto simp: os_mkdir_def)
  from assms ne obtain es where es: "resolve t (butlast p) = Inr (Dir es)"
    and no: "map_of es (last p) = None" and t': "t' = put_node t p (Dir [])"
    by (auto simp: os_mkdir_def split: sum.splits node.splits option.splits)
  from es show "is_dir t (butlast p)" by (simp add: is_dir_def resolve_Inr)
  from ne have "p = butlast p @ [last p]" by simp
  then have "node_at t p = node_at t (butlast p @ [last p])" by simp
  also have "\<dots> = None" using es no by (simp add: node_at_snoc resolve_Inr)
  finally show "node_at t p = None" .
  from t' show "t' = put_node t p (Dir [])" .
qed

lemma os_mkdir_new_dir:
  assumes "os_mkdir t p = Inr t'"
  shows "node_at t' p = Some (Dir [])"
  using os_mkdir_Inr [OF assms] by (simp add: node_at_put_node_same)

lemma os_mkdir_FileNotFound:
  assumes "os_mkdir t p = Inl FileNotFoundError"
  shows "p \<noteq> []" and "node_at t (butlast p) = None"
  using assms
  by (auto simp: os_mkdir_def node_at_def split: sum.splits node.splits option.splits if_splits)

lemma os_mkdir_in_dir:
  assumes "p \<noteq> []" and "node_at t (butlast p) = Some (Dir es)" and "map_of es (last p) = None"
  shows "os_mkdir t p = Inr (put_node t p (Dir []))"
  using assms by (simp add: os_mkdir_def resolve_Inr [symmetric])

lemma os_mkdir_exists:
  assumes "node_at t p \<noteq> None"
  shows "os_mkdir t p = Inl FileExistsError"
proof (cases "p = []")
  case True
  then show ?thesis by (simp add: os_mkdir_def)
next
  case False
  from assms obtain n where "node_at t p = Some n" by auto
  from node_at_butlast [OF this False] obtain es where
    "node_at t (butlast p) = Some (Dir es)" and "map_of es (last p) = Some n" by blast
  with False show ?thesis by (simp add: os_mkdir_def resolve_Inr [symmetric])
qed

lemma os_mkdir_frame:
  assumes "os_mkdir t p = Inr t'" and "node_at t q \<noteq> None"
  shows "map_option shallow (node_at t' q) = map_option shallow (node_at t q)"
proof -
  have "\<not> prefix p q"
  proof
    assume "prefix p q"
    then obtain r where "q = p @ r" by (auto simp: prefix_def)
    with os_mkdir_Inr(3) [OF assms(1)] have "node_at t q = None" by (simp add: node_at_append)
    with assms(2) show False by simp
  qed
  with os_mkdir_Inr(4) [OF assms(1)] show ?thesis by (simp add: node_at_put_node_other)
qed

lemma mkdir_parents_existing:
  assumes "is_dir t p"
  shows "mkdir_parents t p = (Inr (), t)"
proof -
  from assms have "node_at t p \<noteq> None" by (auto simp: is_dir_def split: option.splits)
  then have "os_mkdir t p = Inl FileExistsError" by (rule os_mkdir_exists)
  with assms show ?thesis by (subst mkdir_parents.simps) simp
qed

lemma mkdir_parents_Inr:
  "mkdir_parents t p = (Inr u, t') \<Longrightarrow>
     (t' = t \<and> is_dir t p) \<or> (p \<noteq> [] \<and> node_at t' p = Some (Dir []))"
proof (induction t p arbitrary: t' rule: mkdir_parents.induct)
  case (1 t p)
  show ?case
  proof (cases "os_mkdir t p")
    case (Inr t1)
    with "1.prems" have "t' = t1" by (subst (asm) mkdir_parents.simps) simp
    with Inr os_mkdir_new_dir [OF Inr] os_mkdir_Inr(1) [OF Inr] show ?thesis by simp
  next
    case (Inl e)
    show ?thesis
    proof (cases "e = FileNotFoundError")
      case False
      with Inl "1.prems" show ?thesis
        by (subst (asm) mkdir_parents.simps) (simp split: if_splits)
    next
      case True
      with Inl have fnf: "os_mkdir t p = Inl FileNotFoundError" by simp
      from os_mkdir_FileNotFound [OF fnf] have ne: "p \<noteq> []" by simp
      obtain r t1 where rec: "mkdir_parents t (butlast p) = (r, t1)"
        by (cases "mkdir_parents t (butlast p)")
      with fnf ne "1.prems" obtain m: "mkdir t1 p True = Inr t'" and r: "r = Inr ()"
        by (subst (asm) mkdir_parents.simps) (auto split: sum.splits)
      from rec r have "mkdir_parents t (butlast p) = (Inr u, t1)" by simp
      from "1.IH" [OF fnf refl ne this]
      have par: "(t1 = t \<and> is_dir t (butlast p)) \<or>
                 (butlast p \<noteq> [] \<and> node_at t1 (butlast p) = Some (Dir []))"
        by simp
      from os_mkdir_FileNotFound(2) [OF fnf]
      have "\<not> is_dir t (butlast p)" by (simp add: is_dir_def)
      with par have empty: "node_at t1 (butlast p) = Some (Dir [])" by blast
      with ne have "os_mkdir t1 p = Inr (put_node t1 p (Dir []))"
        by (simp add: os_mkdir_in_dir)
      with m have "os_mkdir t1 p = Inr t'" by (simp add: mkdir_def)
      from os_mkdir_new_dir [OF this] ne show ?thesis by simp
    qed
  qed
qed

lemma mkdir_parents_Inl:
  "mkdir_parents t p = (Inl e, t') \<Longrightarrow> t' = t"
proof (induction t p arbitrary: t' e rule: mkdir_parents.induct)
  case (1 t p)
  show ?case
  proof (cases "os_mkdir t p")
    case (Inr t1)
    with "1.prems" show ?thesis by (subst (asm) mkdir_parents.simps) simp
  next
    case (Inl e0)
    show ?thesis
    proof (cases "e0 = FileNotFoundError")
      case False
      with Inl "1.prems" show ?thesis
        by (subst (asm) mkdir_parents.simps) (simp split: if_splits)
    next
      case True
      with Inl have fnf: "os_mkdir t p = Inl FileNotFoundError" by simp
      show ?thesis
      proof (cases "p = []")
        case True
        with fnf "1.prems" show ?thesis by (subst (asm) mkdir_parents.simps) simp
      next
        case ne: False
        obtain r t1 where rec: "mkdir_parents t (butlast p) = (r, t1)"
          by (cases "mkdir_parents t (butlast p)")
        show ?thesis
        proof (cases r)
          case (Inl e1)
          with rec fnf ne "1.prems" have "t' = t1"
            by (subst (asm) mkdir_parents.simps) simp
          moreover from rec Inl have "mkdir_parents t (butlast p) = (Inl e1, t1)" by simp
          from "1.IH" [OF fnf refl ne this] have "t1 = t" .
          ultimately show ?thesis by simp
        next
          case (Inr u)
          with rec have "mkdir_parents t (butlast p) = (Inr u, t1)" by simp
          from mkdir_parents_Inr [OF this] os_mkdir_FileNotFound(2) [OF fnf]
          have "node_at t1 (butlast p) = Some (Dir [])" by (auto simp: is_dir_def)
          with ne have "os_mkdir t1 p = Inr (put_node t1 p (Dir []))"
            by (simp add: os_mkdir_in_dir)
          then have "mkdir t1 p True = Inr (put_node t1 p (Dir []))" by (simp add: mkdir_def)
          with rec Inr fnf ne "1.prems" show ?thesis
            by (subst (asm) mkdir_parents.simps) simp
        qed
      qed
    qed
  qed
qed

lemma mkdir_frame:
  assumes "mkdir t p ok = Inr t'" and "node_at t q \<noteq> None"
  shows "map_option shallow (node_at t' q) = map_option shallow (node_at t q)"
proof (cases "os_mkdir t p")
  case (Inr t1)
  with assms(1) have "t' = t1" by (simp add: mkdir_def)
  with os_mkdir_frame [OF Inr assms(2)] show ?thesis by simp
next
  case (Inl e)
  with assms(1) have "t' = t" by (simp add: mkdir_def split: if_splits)
  then show ?thesis by simp
qed

lemma mkdir_parents_frame:
  "mkdir_parents t p = (r, t') \<Longrightarrow> node_at t q \<noteq> None \<Longrightarrow>
     map_option shallow (node_at t' q) = map_option shallow (node_at t q)"
proof (induction t p arbitrary: t' r rule: mkdir_parents.induct)
  case (1 t p)
  show ?case
  proof (cases "os_mkdir t p")
    case (Inr t1)
    with "1.prems"(1) have "t' = t1" by (subst (asm) mkdir_parents.simps) simp
    with os_mkdir_frame [OF Inr "1.prems"(2)] show ?thesis by simp
  next
    case (Inl e0)
    show ?thesis
    proof (cases "e0 = FileNotFoundError \<and> p \<noteq> []")
      case False
      with Inl "1.prems"(1) have "t' = t"
        by (subst (asm) mkdir_parents.simps) (auto split: if_splits)
      then show ?thesis by simp
    next
      case True
      with Inl have fnf: "os_mkdir t p = Inl FileNotFoundError" and ne: "p \<noteq> []" by simp_all
      obtain r1 t1 where rec: "mkdir_parents t (butlast p) = (r1, t1)"
        by (cases "mkdir_parents t (butlast p)")
      from "1.IH" [OF fnf refl ne rec "1.prems"(2)]
      have s1: "map_option shallow (node_at t1 q) = map_option shallow (node_at t q)" by simp
      with "1.prems"(2) have ex1: "node_at t1 q \<noteq> None" by auto
      show ?thesis
      proof (cases "\<exists>t2. r1 = Inr () \<and> mkdir t1 p True = Inr t2")
        case False
        with rec fnf ne "1.prems"(1) have "t' = t1"
          by (subst (asm) mkdir_parents.simps) (auto split: sum.splits)
        with s1 show ?thesis by simp
      next
        case True
        then obtain t2 where r1: "r1 = Inr ()" and m: "mkdir t1 p True = Inr t2" by blast
        with rec fnf ne "1.prems"(1) have "t' = t2"
          by (subst (asm) mkdir_parents.simps) simp
        with mkdir_frame [OF m ex1] s1 show ?thesis by simp
      qed
    qed
  qed
qed

lemma mkdir_parents_is_dir:
  assumes "mkdir_parents t p = (Inr u, t')"
  shows "is_dir t' p"
  using mkdir_parents_Inr [OF assms] by (auto simp: is_dir_def)

subsection \<open>Moving an article\<close>

lemma is_dir_butlast:
  assumes "is_dir t p"
  shows "is_dir t (butlast p)"
proof (cases "p = []")
  case True
  with assms show ?thesis by simp
next
  case False
  from assms obtain es where "node_at t p = Some (Dir es)"
    by (auto simp: is_dir_def split: option.splits node.splits)
  from node_at_butlast [OF this False] show ?thesis by (auto simp: is_dir_def)
qed

lemma os_rename_error:
  assumes "node_at t dst = None" and "os_rename t src dst = Inl e"
  shows "e = NotADirectoryError \<or> e = FileNotFoundError \<or> e = OSError"
  using assms
  by (auto simp: os_rename_def split: sum.splits node.splits if_splits dest: resolve_error)

lemma os_rename_Inr:
  assumes "node_at t dst = None" and "os_rename t src dst = Inr t'"
  shows "\<exists>n. node_at t src = Some n \<and> \<not> prefix src dst \<and> is_dir t (butlast dst)
           \<and> t' = put_node (del_node t src) dst n"
proof -
  from assms(2) obtain n where n: "resolve t src = Inr n"
    by (auto simp: os_rename_def split: sum.splits)
  then have src: "node_at t src = Some n" by (simp add: resolve_Inr)
  with assms(1) have ne: "src \<noteq> dst" by auto
  with assms n have np: "\<not> prefix src dst"
    by (auto simp: os_rename_def split: if_splits)
  from assms n ne np obtain ps where "resolve t (butlast dst) = Inr (Dir ps)"
    and "t' = put_node (del_node t src) dst n"
    by (auto simp: os_rename_def split: sum.splits node.splits)
  with src np show ?thesis by (auto simp: is_dir_def resolve_Inr)
qed

lemma shutil_move_error:
  assumes "node_at t dst = None" and "shutil_move t src dst = Inl e"
  shows "e \<noteq> FileExistsError \<and> e \<noteq> IsADirectoryError"
proof -
  from assms(1) have nd: "\<not> is_dir t dst" by (simp add: is_dir_def)
  show ?thesis
  proof (cases "os_rename t src dst")
    case (Inr t')
    with assms(2) nd show ?thesis by (simp add: shutil_move_def)
  next
    case (Inl e0)
    from os_rename_error [OF assms(1) Inl] Inl assms(2) nd show ?thesis
      by (auto simp: shutil_move_def split: if_splits)
  qed
qed

lemma shutil_move_Inr:
  assumes "node_at t dst = None" and "shutil_move t src dst = Inr t'"
  shows "\<exists>n. node_at t src = Some n \<and> \<not> prefix src dst \<and> is_dir t (butlast dst)
           \<and> t' = put_node (del_node t src) dst n"
proof -
  from assms(1) have "\<not> is_dir t dst" by (simp add: is_dir_def)
  with assms(2) have "os_rename t src dst = Inr t'"
    by (auto simp: shutil_move_def split: sum.splits if_splits)
  from os_rename_Inr [OF assms(1) this] show ?thesis .
qed

lemma unlink_Inr:
  assumes "unlink t p = Inr t'"
  shows "\<exists>c. node_at t p = Some (File c) \<and> t' = del_node t p"
  using assms by (auto simp: unlink_def resolve_Inr split: sum.splits node.splits)

lemma unlink_file:
  assumes "path_exists t p" and "\<not> is_dir t p"
  shows "unlink t p = Inr (del_node t p)"
  using assms
  by (auto simp: unlink_def path_exists_def is_dir_def node_at_def split: sum.splits node.splits)

lemma mkdir_parents_then_exists:
  assumes "mkdir_parents t (butlast p) = (Inr u, t1)" and "path_exists t1 p"
  shows "t1 = t"
proof (cases "p = []")
  case True
  with mkdir_parents_Inr [OF assms(1)] show ?thesis by simp
next
  case False
  then have p: "p = butlast p @ [last p]" by simp
  from mkdir_parents_Inr [OF assms(1)]
  consider "t1 = t" | "node_at t1 (butlast p) = Some (Dir [])" by blast
  then show ?thesis
  proof cases
    case 1
    then show ?thesis .
  next
    case 2
    then have "node_at t1 (butlast p @ [last p]) = None" by (simp add: node_at_snoc)
    with p assms(2) show ?thesis by (simp add: path_exists_def)
  qed
qed

lemma move_article_dst_dir:
  assumes "is_dir t (dst_root @ rel)"
  shows "move_article src_root dst_root rel force t
           = (Inl (if force then IsADirectoryError else FileExistsError), t)"
proof -
  from assms have "is_dir t (butlast (dst_root @ rel))" by (rule is_dir_butlast)
  then have "mkdir_parents t (butlast (dst_root @ rel)) = (Inr (), t)"
    by (rule mkdir_parents_existing)
  moreover from assms have "path_exists t (dst_root @ rel)"
    by (auto simp: is_dir_def path_exists_def split: option.splits)
  ultimately show ?thesis using assms by (simp add: move_article_def)
qed

lemma move_article_error_unchanged:
  assumes "move_article src_root dst_root rel force t = (Inl e, t')"
    and "e = FileExistsError \<or> e = IsADirectoryError"
  shows "t' = t"
proof -
  define src where "src = src_root @ rel"
  define dst where "dst = dst_root @ rel"
  obtain r t1 where mk: "mkdir_parents t (butlast dst) = (r, t1)"
    by (cases "mkdir_parents t (butlast dst)")
  show ?thesis
  proof (cases r)
    case (Inl e1)
    with mk assms(1) have "t' = t1" by (simp add: move_article_def dst_def)
    moreover from mk Inl have "t1 = t" by (auto dest: mkdir_parents_Inl)
    ultimately show ?thesis by simp
  next
    case (Inr u)
    with mk have mk': "mkdir_parents t (butlast dst) = (Inr u, t1)" by simp
    show ?thesis
    proof (cases "path_exists t1 dst")
      case ex: True
      from mkdir_parents_then_exists [OF mk' ex] have same: "t1 = t" .
      show ?thesis
      proof (cases "\<not> force \<or> is_dir t1 dst")
        case True
        with mk' ex assms(1) have "t' = t1"
          by (auto simp: move_article_def dst_def [symmetric] split: if_splits)
        with same show ?thesis by simp
      next
        case False
        then have f: "force" and nd: "\<not> is_dir t1 dst" by simp_all
        from unlink_file [OF ex nd] have ul: "unlink t1 dst = Inr (del_node t1 dst)" .
        from mkdir_parents_is_dir [OF mk'] nd have "dst \<noteq> []" by auto
        then have gone: "node_at (del_node t1 dst) dst = None" by (rule node_at_del_node_same)
        from mk' ex f nd ul assms(1)
        have "shutil_move (del_node t1 dst) src dst = Inl e"
          by (auto simp: move_article_def dst_def [symmetric] src_def [symmetric]
                   split: sum.splits)
        from shutil_move_error [OF gone this] assms(2) show ?thesis by simp
      qed
    next
      case nex: False
      then have gone: "node_at t1 dst = None" by (simp add: path_exists_def)
      from mk' nex assms(1) have "shutil_move t1 src dst = Inl e"
        by (auto simp: move_article_def dst_def [symmetric] src_def [symmetric]
                 split: sum.splits)
      from shutil_move_error [OF gone this] assms(2) show ?thesis by simp
    qed
  qed
qed

lemma move_article_moves_file:
  assumes ok: "move_article src_root dst_root rel force t = (Inr u, t')"
    and src_file: "node_at t (src_root @ rel) = Some (File c)"
  shows "node_at t' (dst_root @ rel) = Some (File c)"
proof -
  define src where "src = src_root @ rel"
  define dst where "dst = dst_root @ rel"
  from src_file have file0: "node_at t src = Some (File c)" by (simp add: src_def)
  obtain r t1 where mk: "mkdir_parents t (butlast dst) = (r, t1)"
    by (cases "mkdir_parents t (butlast dst)")
  with ok obtain v where r: "r = Inr v"
    by (cases r) (auto simp: move_article_def dst_def)
  with mk have mk': "mkdir_parents t (butlast dst) = (Inr v, t1)" by simp
  from mkdir_parents_frame [OF mk, of src] file0
  have file1: "node_at t1 src = Some (File c)" by simp
  from mkdir_parents_is_dir [OF mk'] have par1: "is_dir t1 (butlast dst)" .
  obtain t2 where mv: "shutil_move t2 src dst = Inr t'" and gone: "node_at t2 dst = None"
    and file2: "node_at t2 src = Some (File c)" and par2: "is_dir t2 (butlast dst)"
  proof (cases "path_exists t1 dst")
    case False
    with mk' ok have "shutil_move t1 src dst = Inr t'"
      by (auto simp: move_article_def dst_def [symmetric] src_def [symmetric] split: sum.splits)
    with False file1 par1 that show ?thesis by (simp add: path_exists_def)
  next
    case ex: True
    with mk' ok have f: "force" and nd: "\<not> is_dir t1 dst"
      by (auto simp: move_article_def dst_def [symmetric] split: if_splits)
    from unlink_file [OF ex nd] have ul: "unlink t1 dst = Inr (del_node t1 dst)" .
    with mk' ok ex f nd have mv: "shutil_move (del_node t1 dst) src dst = Inr t'"
      by (auto simp: move_article_def dst_def [symmetric] src_def [symmetric] split: sum.splits)
    from ex nd obtain d where dfile: "node_at t1 dst = Some (File d)"
      by (auto simp: is_dir_def path_exists_def split: option.splits node.splits)
    from par1 nd have ne: "dst \<noteq> []" by auto
    then have gone: "node_at (del_node t1 dst) dst = None" by (rule node_at_del_node_same)
    have "src \<noteq> dst"
    proof
      assume "src = dst"
      with gone have "node_at (del_node t1 dst) src = None" by simp
      then have "resolve (del_node t1 dst) src \<noteq> Inr n" for n by (simp add: resolve_Inr)
      then obtain e0 where "resolve (del_node t1 dst) src = Inl e0"
        by (cases "resolve (del_node t1 dst) src") auto
      with gone have "\<exists>e. shutil_move (del_node t1 dst) src dst = Inl e"
        by (simp add: shutil_move_def os_rename_def is_dir_def)
      with mv show False by auto
    qed
    have "\<not> prefix dst src"
    proof
      assume "prefix dst src"
      from file_has_no_descendant [OF dfile this] file1 \<open>src \<noteq> dst\<close> show False by simp
    qed
    from node_at_del_node_other [OF this, of t1] file1
    have file2: "node_at (del_node t1 dst) src = Some (File c)" by simp
    from ne have "\<not> prefix dst (butlast dst)"
      by (metis append_butlast_last_id append_self_conv not_Cons_self2 prefix_order.antisym
                prefixI)
    from node_at_del_node_other [OF this, of t1] par1
    have par2: "is_dir (del_node t1 dst) (butlast dst)" by (simp add: is_dir_shallow)
    from mv gone file2 par2 that show ?thesis by blast
  qed
  from shutil_move_Inr [OF gone mv] file2
  have np: "\<not> prefix src dst" and t': "t' = put_node (del_node t2 src) dst (File c)"
    by auto
  from gone have ne: "dst \<noteq> []" by auto
  have "\<not> prefix src (butlast dst)"
  proof
    assume "prefix src (butlast dst)"
    also have "prefix (butlast dst) dst" by (simp add: prefixeq_butlast)
    finally show False using np by simp
  qed
  from node_at_del_node_other [OF this, of t2] par2
  have "is_dir (del_node t2 src) (butlast dst)" by (simp add: is_dir_shallow)
  with ne t' have "node_at t' dst = Some (File c)" by (simp add: node_at_put_node_same)
  then show ?thesis by (simp add: dst_def)
qed

lemma move_article_source_gone:
  assumes ok: "move_article src_root dst_root rel force t = (Inr u, t')"
    and src_file: "node_at t (src_root @ rel) = Some (File c)"
  shows "node_at t' (src_root @ rel) = None"
proof -
  define src where "src = src_root @ rel"
  define dst where "dst = dst_root @ rel"
  from src_file have file0: "node_at t src = Some (File c)" by (simp add: src_def)
  obtain r t1 where mk: "mkdir_parents t (butlast dst) = (r, t1)"
    by (cases "mkdir_parents t (butlast dst)")
  with ok obtain v where r: "r = Inr v"
    by (cases r) (auto simp: move_article_def dst_def)
  with mk have mk': "mkdir_parents t (butlast dst) = (Inr v, t1)" by simp
  from mkdir_parents_is_dir [OF mk'] have par1: "is_dir t1 (butlast dst)" .
  obtain t2 where mv: "shutil_move t2 src dst = Inr t'" and gone: "node_at t2 dst = None"
  proof (cases "path_exists t1 dst")
    case False
    with mk' ok have "shutil_move t1 src dst = Inr t'"
      by (auto simp: move_article_def dst_def [symmetric] src_def [symmetric] split: sum.splits)
    with False that show ?thesis by (simp add: path_exists_def)
  next
    case ex: True
    with mk' ok have f: "force" and nd: "\<not> is_dir t1 dst"
      by (auto simp: move_article_def dst_def [symmetric] split: if_splits)
    from unlink_file [OF ex nd] have ul: "unlink t1 dst = Inr (del_node t1 dst)" .
    with mk' ok ex f nd have mv: "shutil_move (del_node t1 dst) src dst = Inr t'"
      by (auto simp: move_article_def dst_def [symmetric] src_def [symmetric] split: sum.splits)
    from par1 nd have ne: "dst \<noteq> []" by auto
    then have "node_at (del_node t1 dst) dst = None" by (rule node_at_del_node_same)
    with mv that show ?thesis by blast
  qed
  from shutil_move_Inr [OF gone mv] obtain n where
    src2: "node_at t2 src = Some n" and np: "\<not> prefix src dst"
    and t': "t' = put_node (del_node t2 src) dst n"
    by blast
  from np have ne: "src \<noteq> []" by auto
  have "\<not> prefix dst src"
  proof
    assume "prefix dst src"
    then obtain q where "src = dst @ q" by (auto simp: prefix_def)
    with gone have "node_at t2 src = None" by (simp add: node_at_append)
    with src2 show False by simp
  qed
  from node_at_put_node_other [OF this, of "del_node t2 src" n] node_at_del_node_same [OF ne, of t2] t'
  show ?thesis by (simp add: src_def)
qed

subsection \<open>Claims about the mover\<close>

text \<open>
  Claim C1, as the code has it. When the destination path is an existing directory, the
  move always fails and leaves the tree as it was, but the exception depends on
  \<open>force\<close>: with \<open>force\<close> it is \<open>IsADirectoryError\<close> (DestinationIsDirectory), without
  \<open>force\<close> the test \<open>if not force\<close> comes first and raises \<open>FileExistsError\<close>
  (AlreadyExists).
\<close>

theorem move_article_destination_directory:
  assumes "is_dir t (dst_root @ rel)"
  shows "move_article src_root dst_root rel True t = (Inl IsADirectoryError, t)
       \<and> move_article src_root dst_root rel False t = (Inl FileExistsError, t)"
  using move_article_dst_dir [OF assms, of src_root True]
        move_article_dst_dir [OF assms, of src_root False]
  by simp

theorem move_article_destination_directory_witness:
  "is_dir site (DRAFTS_DIR @ c_md)
   \<and> move_article DOCS_DIR DRAFTS_DIR c_md True site = (Inl IsADirectoryError, site)
   \<and> move_article DOCS_DIR DRAFTS_DIR c_md False site = (Inl FileExistsError, site)"
proof -
  have d: "is_dir site (DRAFTS_DIR @ c_md)" by code_simp
  from d move_article_destination_directory [OF d, of DOCS_DIR] show ?thesis by simp
qed

text \<open>
  The claim as stated fails without \<open>force\<close>: \<open>drafts/llm/c.md\<close> is a directory, and
  moving \<open>llm/c.md\<close> there without \<open>force\<close> raises \<open>FileExistsError\<close>.
\<close>

theorem move_article_directory_without_force_counterexample:
  "is_dir site (DRAFTS_DIR @ c_md)
   \<and> fst (move_article DOCS_DIR DRAFTS_DIR c_md False site) = Inl FileExistsError
   \<and> fst (move_article DOCS_DIR DRAFTS_DIR c_md False site) \<noteq> Inl IsADirectoryError"
  by code_simp

text \<open>
  Claim C8. A move that raises \<open>FileExistsError\<close> (AlreadyExists) or
  \<open>IsADirectoryError\<close> (DestinationIsDirectory) leaves the whole tree as it was; in
  particular the source is still what it was.
\<close>

theorem move_article_failure_leaves_source:
  assumes "move_article src_root dst_root rel force t = (Inl e, t')"
    and "e = FileExistsError \<or> e = IsADirectoryError"
  shows "t' = t \<and> node_at t' (src_root @ rel) = node_at t (src_root @ rel)"
  using move_article_error_unchanged [OF assms] by simp

theorem move_article_failure_leaves_source_witness:
  "move_article DOCS_DIR DRAFTS_DIR b_note_md False site
     = (Inl FileExistsError, snd (move_article DOCS_DIR DRAFTS_DIR b_note_md False site))
   \<and> snd (move_article DOCS_DIR DRAFTS_DIR b_note_md False site) = site
   \<and> node_at (snd (move_article DOCS_DIR DRAFTS_DIR b_note_md False site)) (DOCS_DIR @ b_note_md)
       = Some (File (bytes ''no heading'' @ [10]))"
proof -
  have run: "move_article DOCS_DIR DRAFTS_DIR b_note_md False site
     = (Inl FileExistsError, snd (move_article DOCS_DIR DRAFTS_DIR b_note_md False site))"
    by code_simp
  have src: "node_at site (DOCS_DIR @ b_note_md) = Some (File (bytes ''no heading'' @ [10]))"
    by code_simp
  from move_article_failure_leaves_source [OF run] run src show ?thesis by simp
qed

text \<open>
  Claim C7. An article (a regular file) that is moved from store \<open>a\<close> to store \<open>b\<close>
  and then back, both moves succeeding, has travelled: after the first move it is at its
  relative path in \<open>b\<close>, with the same bytes, and no longer in \<open>a\<close>; after the second
  it is again at its relative path in \<open>a\<close>, with the same bytes, and no longer in \<open>b\<close>.
\<close>

theorem move_article_round_trip:
  assumes "node_at t (a @ rel) = Some (File c)"
    and "move_article a b rel force1 t = (Inr u1, t1)"
    and "move_article b a rel force2 t1 = (Inr u2, t2)"
  shows "node_at t1 (b @ rel) = Some (File c) \<and> node_at t1 (a @ rel) = None
       \<and> node_at t2 (a @ rel) = Some (File c) \<and> node_at t2 (b @ rel) = None"
proof -
  from move_article_moves_file [OF assms(2) assms(1)]
  have there: "node_at t1 (b @ rel) = Some (File c)" .
  from move_article_source_gone [OF assms(2) assms(1)]
  have left: "node_at t1 (a @ rel) = None" .
  from move_article_moves_file [OF assms(3) there]
  have home: "node_at t2 (a @ rel) = Some (File c)" .
  from move_article_source_gone [OF assms(3) there]
  have "node_at t2 (b @ rel) = None" .
  with there left home show ?thesis by simp
qed

theorem move_article_round_trip_witness:
  "node_at site (DOCS_DIR @ a_md) = Some (File (bytes ''# Hello World'' @ [10]))
   \<and> move_article DOCS_DIR DRAFTS_DIR a_md False site
       = (Inr (), snd (move_article DOCS_DIR DRAFTS_DIR a_md False site))
   \<and> move_article DRAFTS_DIR DOCS_DIR a_md False
         (snd (move_article DOCS_DIR DRAFTS_DIR a_md False site))
       = (Inr (), snd (move_article DRAFTS_DIR DOCS_DIR a_md False
                        (snd (move_article DOCS_DIR DRAFTS_DIR a_md False site))))
   \<and> node_at (snd (move_article DOCS_DIR DRAFTS_DIR a_md False site)) (DRAFTS_DIR @ a_md)
       = Some (File (bytes ''# Hello World'' @ [10]))
   \<and> node_at (snd (move_article DOCS_DIR DRAFTS_DIR a_md False site)) (DOCS_DIR @ a_md) = None
   \<and> node_at (snd (move_article DRAFTS_DIR DOCS_DIR a_md False
                     (snd (move_article DOCS_DIR DRAFTS_DIR a_md False site))))
        (DOCS_DIR @ a_md)
       = Some (File (bytes ''# Hello World'' @ [10]))
   \<and> node_at (snd (move_article DRAFTS_DIR DOCS_DIR a_md False
                     (snd (move_article DOCS_DIR DRAFTS_DIR a_md False site))))
        (DRAFTS_DIR @ a_md)
       = None"
proof -
  have src: "node_at site (DOCS_DIR @ a_md) = Some (File (bytes ''# Hello World'' @ [10]))"
    by code_simp
  have out: "move_article DOCS_DIR DRAFTS_DIR a_md False site
       = (Inr (), snd (move_article DOCS_DIR DRAFTS_DIR a_md False site))"
    by code_simp
  have ret: "move_article DRAFTS_DIR DOCS_DIR a_md False
         (snd (move_article DOCS_DIR DRAFTS_DIR a_md False site))
       = (Inr (), snd (move_article DRAFTS_DIR DOCS_DIR a_md False
                        (snd (move_article DOCS_DIR DRAFTS_DIR a_md False site))))"
    by code_simp
  from move_article_round_trip [OF src out ret] src out ret show ?thesis by blast
qed

subsection \<open>The article index\<close>

lemma wf_entries_map_of:
  "wf_entries es \<Longrightarrow> map_of es x = Some c \<Longrightarrow> wf_node c"
  by (induction es) (auto split: if_splits)

lemma wf_node_at:
  "wf_node t \<Longrightarrow> node_at t p = Some n \<Longrightarrow> wf_node n"
proof (induction p arbitrary: t)
  case Nil
  then show ?case by simp
next
  case (Cons x xs)
  then show ?case
    by (cases t) (auto split: option.splits dest: wf_entries_map_of)
qed

lemma walk_spec:
  "wf_node t \<Longrightarrow> (q, n) \<in> set (walk t) \<longleftrightarrow> q \<noteq> [] \<and> node_at t q = Some n"
  "wf_entries es \<Longrightarrow> (q, n) \<in> set (walk_entries es) \<longleftrightarrow> q \<noteq> [] \<and> node_at (Dir es) q = Some n"
proof (induction t and es arbitrary: q n and q n rule: walk_walk_entries.induct)
  case (1 c)
  show ?case by (cases q) simp_all
next
  case (2 es)
  then show ?case by simp
next
  case 3
  show ?case by (cases q) simp_all
next
  case (4 name child es)
  from "4.prems" have fresh: "name \<notin> fst ` set es" and wc: "wf_node child" and we: "wf_entries es"
    by simp_all
  from fresh have no: "map_of es name = None" by (simp add: map_of_eq_None_iff)
  show ?case
  proof (cases q)
    case Nil
    with "4.IH"(2) [OF we, of "[]" n] show ?thesis by auto
  next
    case (Cons x xs)
    show ?thesis
    proof (cases "x = name")
      case True
      have "(q, n) \<notin> set (walk_entries es)"
        using "4.IH"(2) [OF we, of q n] Cons True no by simp
      moreover have "(q, n) \<in> (\<lambda>(q', n'). (name # q', n')) ` set (walk child)
                      \<longleftrightarrow> (xs, n) \<in> set (walk child)"
        using Cons True by auto
      ultimately show ?thesis
        using "4.IH"(1) [OF wc, of xs n] Cons True by (cases xs) auto
    next
      case False
      with "4.IH"(2) [OF we, of q n] Cons show ?thesis by auto
    qed
  qed
qed

lemma set_rglob_md:
  assumes "wf_node t"
  shows "set (rglob_md t r) = {r @ q | q. q \<noteq> [] \<and> node_at t (r @ q) \<noteq> None \<and> fnmatch_md (last q)}"
proof (cases "node_at t r")
  case None
  then show ?thesis by (simp add: rglob_md_def node_at_append)
next
  case (Some d)
  show ?thesis
  proof (cases d)
    case (File c)
    with Some have "node_at t (r @ q) = None" if "q \<noteq> []" for q
      using that by (cases q) (simp_all add: node_at_append)
    with Some File show ?thesis by (auto simp: rglob_md_def)
  next
    case (Dir es)
    from wf_node_at [OF assms Some] Dir have wd: "wf_node (Dir es)" by simp
    have at: "node_at t (r @ q) = node_at (Dir es) q" for q
      using Some Dir by (simp add: node_at_append)
    have "set (rglob_md t r) = {r @ q | q n. (q, n) \<in> set (walk (Dir es)) \<and> fnmatch_md (basename q)}"
      using Some Dir by (auto simp: rglob_md_def)
    also have "\<dots> = {r @ q | q. q \<noteq> [] \<and> node_at t (r @ q) \<noteq> None \<and> fnmatch_md (last q)}"
      using walk_spec(1) [OF wd] by (auto simp: at basename_def)
    finally show ?thesis .
  qed
qed

lemma set_iter_md_files:
  assumes "wf_node t"
  shows "set (iter_md_files t r) = {r @ q | q. q \<noteq> [] \<and> is_file t (r @ q) \<and> fnmatch_md (last q)}"
proof (cases "path_exists t r")
  case False
  then have "\<not> is_file t (r @ q)" for q
    by (simp add: path_exists_def is_file_def node_at_append)
  with False show ?thesis by (simp add: iter_md_files_def)
next
  case True
  have "is_file t p \<Longrightarrow> node_at t p \<noteq> None" for p
    by (auto simp: is_file_def split: option.splits)
  with True set_rglob_md [OF assms, of r] show ?thesis
    by (auto simp: iter_md_files_def)
qed

text \<open>
  Claim C3, as the code has it. The scan lists exactly the regular files below the root,
  at any depth, whose name matches the pattern \<open>*.md\<close> of \<open>rglob\<close>, that is, ends with
  \<open>.md\<close> exactly as written: pathlib matches names case-sensitively on POSIX, and
  \<open>Article.is_markdown\<close>, which lower-cases the suffix, is not used by the scan.
\<close>

theorem iter_md_files_lists_glob_matches:
  assumes "wf_node t"
  shows "set (iter_md_files t r)
           = {r @ q | q. q \<noteq> [] \<and> is_file t (r @ q) \<and> endswith (last q) (str ''.md'')}"
  using set_iter_md_files [OF assms, of r] by (simp add: fnmatch_md_def)

theorem iter_md_files_lists_glob_matches_witness:
  "wf_node site
   \<and> set (iter_md_files site DOCS_DIR)
       = {DOCS_DIR @ q | q. q \<noteq> [] \<and> is_file site (DOCS_DIR @ q) \<and> endswith (last q) (str ''.md'')}
   \<and> iter_md_files site DOCS_DIR
       = [DOCS_DIR @ [str ''about.md''], DOCS_DIR @ [str ''index.md''],
          DOCS_DIR @ a_md, DOCS_DIR @ b_note_md, DOCS_DIR @ c_md]"
proof -
  have wf: "wf_node site" by code_simp
  have ls: "iter_md_files site DOCS_DIR
       = [DOCS_DIR @ [str ''about.md''], DOCS_DIR @ [str ''index.md''],
          DOCS_DIR @ a_md, DOCS_DIR @ b_note_md, DOCS_DIR @ c_md]"
    by code_simp
  from wf ls iter_md_files_lists_glob_matches [OF wf, of DOCS_DIR] show ?thesis by simp
qed

text \<open>
  The claim as stated fails: \<open>docs/llm/X.MD\<close> is a regular file whose suffix is \<open>.md\<close>
  when compared without case, and the scan of \<open>docs\<close> does not list it.
\<close>

theorem iter_md_files_upper_case_counterexample:
  "is_file site (DOCS_DIR @ [str ''llm'', str ''X.MD''])
   \<and> is_markdown \<lparr>root = DOCS_DIR, relpath = [str ''llm'', str ''X.MD'']\<rparr>
   \<and> DOCS_DIR @ [str ''llm'', str ''X.MD''] \<notin> set (iter_md_files site DOCS_DIR)"
  by code_simp

subsection \<open>The manifest\<close>













subsection \<open>Splicing the manifest\<close>

lemma space_then_eol_iff:
  "space_then_eol s \<longleftrightarrow>
     (\<exists>ws rest. s = ws @ rest \<and> (\<forall>c \<in> set ws. isspace c) \<and> (rest = [] \<or> hd rest = 10))"
proof
  show "space_then_eol s \<Longrightarrow>
     \<exists>ws rest. s = ws @ rest \<and> (\<forall>c \<in> set ws. isspace c) \<and> (rest = [] \<or> hd rest = 10)"
  proof (induction s)
    case Nil
    then show ?case by simp
  next
    case (Cons c cs)
    show ?case
    proof (cases "c = 10")
      case True
      then have "c # cs = [] @ (c # cs) \<and> (\<forall>x \<in> set []. isspace x) \<and> hd (c # cs) = 10"
        by simp
      then show ?thesis by blast
    next
      case False
      with Cons.prems have sp: "isspace c" and "space_then_eol cs" by simp_all
      from Cons.IH [OF this(2)] obtain ws rest where
        "cs = ws @ rest" "\<forall>x \<in> set ws. isspace x" "rest = [] \<or> hd rest = 10" by blast
      with sp have "c # cs = (c # ws) @ rest \<and> (\<forall>x \<in> set (c # ws). isspace x)
                      \<and> (rest = [] \<or> hd rest = 10)"
        by simp
      then show ?thesis by blast
    qed
  qed
next
  assume "\<exists>ws rest. s = ws @ rest \<and> (\<forall>c \<in> set ws. isspace c) \<and> (rest = [] \<or> hd rest = 10)"
  then obtain ws rest where "s = ws @ rest" "\<forall>c \<in> set ws. isspace c" "rest = [] \<or> hd rest = 10"
    by blast
  then show "space_then_eol s"
  proof (induction ws arbitrary: s)
    case Nil
    then show ?case by (cases rest) auto
  next
    case (Cons c ws)
    then show ?case by auto
  qed
qed

lemma nav_match_here_iff:
  "nav_match_here s \<longleftrightarrow>
     (\<exists>ws rest. s = str ''nav:'' @ ws @ rest \<and> (\<forall>c \<in> set ws. isspace c)
                \<and> (rest = [] \<or> hd rest = 10))"
proof
  have len: "length (str ''nav:'') = 4" by (simp add: str_def)
  assume "nav_match_here s"
  then have st: "take 4 s = str ''nav:''" and sp: "space_then_eol (drop 4 s)"
    using len by (simp_all add: nav_match_here_def startswith_def)
  from sp obtain ws rest where
    d: "drop 4 s = ws @ rest" and w: "\<forall>c \<in> set ws. isspace c" and r: "rest = [] \<or> hd rest = 10"
    unfolding space_then_eol_iff by blast
  have "s = take 4 s @ drop 4 s" by simp
  with st d have "s = str ''nav:'' @ ws @ rest" by simp
  with w r show "\<exists>ws rest. s = str ''nav:'' @ ws @ rest \<and> (\<forall>c \<in> set ws. isspace c)
                \<and> (rest = [] \<or> hd rest = 10)"
    by blast
next
  have len: "length (str ''nav:'') = 4" by (simp add: str_def)
  assume "\<exists>ws rest. s = str ''nav:'' @ ws @ rest \<and> (\<forall>c \<in> set ws. isspace c)
                \<and> (rest = [] \<or> hd rest = 10)"
  then obtain ws rest where
    s: "s = str ''nav:'' @ ws @ rest" and w: "\<forall>c \<in> set ws. isspace c"
    and r: "rest = [] \<or> hd rest = 10"
    by blast
  from s len have "take 4 s = str ''nav:''" and d: "drop 4 s = ws @ rest" by simp_all
  moreover from d w r have "space_then_eol (drop 4 s)"
    unfolding space_then_eol_iff by blast
  ultimately show "nav_match_here s"
    using len by (simp add: nav_match_here_def startswith_def)
qed

lemma nav_match_at_0:
  "nav_match_at (c # cs) b 0 \<longleftrightarrow> b \<and> nav_match_here (c # cs)"
  by (simp add: nav_match_at_def)

lemma nav_match_at_Suc:
  "nav_match_at (c # cs) b (Suc j) \<longleftrightarrow> nav_match_at cs (c = 10) j"
  by (cases j) (simp_all add: nav_match_at_def)

lemmas nav_match_at_Cons = nav_match_at_0 nav_match_at_Suc

lemma nav_search_from_Some:
  "nav_search_from s b k = Some i \<Longrightarrow>
     \<exists>j. i = k + j \<and> nav_match_at s b j \<and> \<not> (\<exists>j'<j. nav_match_at s b j')"
proof (induction s arbitrary: b k)
  case Nil
  then show ?case by simp
next
  case (Cons c cs)
  show ?case
  proof (cases "b \<and> nav_match_here (c # cs)")
    case True
    with Cons.prems have "i = k + 0 \<and> nav_match_at (c # cs) b 0" by (simp add: nav_match_at_Cons)
    then show ?thesis by blast
  next
    case False
    with Cons.prems have "nav_search_from cs (c = 10) (Suc k) = Some i" by simp
    from Cons.IH [OF this] obtain j where
      j: "i = Suc k + j" "nav_match_at cs (c = 10) j" "\<not> (\<exists>j'<j. nav_match_at cs (c = 10) j')"
      by blast
    have "\<not> nav_match_at (c # cs) b j'" if "j' < Suc j" for j'
      using that False j(3) by (cases j') (auto simp: nav_match_at_Cons)
    with j(1,2) have "i = k + Suc j \<and> nav_match_at (c # cs) b (Suc j)
                      \<and> \<not> (\<exists>j'<Suc j. nav_match_at (c # cs) b j')"
      by (simp add: nav_match_at_Cons)
    then show ?thesis by blast
  qed
qed

lemma nav_search_from_None:
  "nav_search_from s b k = None \<Longrightarrow> \<not> nav_match_at s b j"
proof (induction s arbitrary: b k j)
  case Nil
  then show ?case by (simp add: nav_match_at_def)
next
  case (Cons c cs)
  from Cons.prems have no: "\<not> (b \<and> nav_match_here (c # cs))"
    and rest: "nav_search_from cs (c = 10) (Suc k) = None"
    by (simp_all split: if_splits)
  show ?case
  proof (cases j)
    case 0
    with no show ?thesis by (simp add: nav_match_at_Cons)
  next
    case (Suc j')
    with Cons.IH [OF rest, of j'] show ?thesis by (simp add: nav_match_at_Cons)
  qed
qed

lemma nav_search_first:
  assumes "nav_match_at text True i" and "\<not> (\<exists>j<i. nav_match_at text True j)"
  shows "nav_search text = Some i"
proof (cases "nav_search text")
  case None
  then have "\<not> nav_match_at text True i"
    unfolding nav_search_def by (rule nav_search_from_None)
  with assms(1) show ?thesis by simp
next
  case (Some i')
  then have "nav_search_from text True 0 = Some i'" by (simp add: nav_search_def)
  from nav_search_from_Some [OF this]
  have m: "nav_match_at text True i'" and least: "\<not> (\<exists>j<i'. nav_match_at text True j)" by auto
  from assms(1) least have "\<not> i < i'" by blast
  moreover from m assms(2) have "\<not> i' < i" by blast
  ultimately show ?thesis using Some by simp
qed

lemma nav_search_none:
  assumes "\<not> (\<exists>j. nav_match_at text True j)"
  shows "nav_search text = None"
proof (cases "nav_search text")
  case None
  then show ?thesis .
next
  case (Some i)
  then have "nav_search_from text True 0 = Some i" by (simp add: nav_search_def)
  from nav_search_from_Some [OF this] assms show ?thesis by auto
qed

subsection \<open>Reading and writing the configuration\<close>

lemma div_mod_64:
  fixes a k :: int
  assumes "0 \<le> k" "k < 64"
  shows "(a * 64 + k) div 64 = a" "(a * 64 + k) mod 64 = k"
  using assms by simp_all

lemma div_mod_4096:
  fixes a k1 k2 :: int
  assumes "0 \<le> k1" "k1 < 64" "0 \<le> k2" "k2 < 64"
  shows "(a * 4096 + k1 * 64 + k2) div 4096 = a"
    "(a * 4096 + k1 * 64 + k2) div 64 mod 64 = k1"
    "(a * 4096 + k1 * 64 + k2) mod 64 = k2"
proof -
  have e: "a * 4096 + k1 * 64 + k2 = (a * 64 + k1) * 64 + k2" by simp
  from assms have b: "0 \<le> k1 * 64 + k2" "k1 * 64 + k2 < 4096" by simp_all
  have "a * 4096 + k1 * 64 + k2 = a * 4096 + (k1 * 64 + k2)" by simp
  with b show "(a * 4096 + k1 * 64 + k2) div 4096 = a" by simp
  from assms(3,4) have "((a * 64 + k1) * 64 + k2) div 64 = a * 64 + k1"
    by (rule div_mod_64)
  with assms(1,2) show "(a * 4096 + k1 * 64 + k2) div 64 mod 64 = k1"
    by (simp add: e div_mod_64 del: mult_numeral_left_semiring_numeral)
  from assms(3,4) have "((a * 64 + k1) * 64 + k2) mod 64 = k2" by (rule div_mod_64)
  then show "(a * 4096 + k1 * 64 + k2) mod 64 = k2" by (simp only: e)
qed


lemma div_mod_262144:
  fixes a k1 k2 k3 :: int
  assumes "0 \<le> k1" "k1 < 64" "0 \<le> k2" "k2 < 64" "0 \<le> k3" "k3 < 64"
  shows "(a * 262144 + k1 * 4096 + k2 * 64 + k3) div 262144 = a"
    "(a * 262144 + k1 * 4096 + k2 * 64 + k3) div 4096 mod 64 = k1"
    "(a * 262144 + k1 * 4096 + k2 * 64 + k3) div 64 mod 64 = k2"
    "(a * 262144 + k1 * 4096 + k2 * 64 + k3) mod 64 = k3"
proof -
  have e: "a * 262144 + k1 * 4096 + k2 * 64 + k3 = (a * 64 + k1) * 4096 + k2 * 64 + k3"
    by simp
  from assms have b: "0 \<le> k1 * 4096 + k2 * 64 + k3" "k1 * 4096 + k2 * 64 + k3 < 262144"
    by simp_all
  have "a * 262144 + k1 * 4096 + k2 * 64 + k3 = a * 262144 + (k1 * 4096 + k2 * 64 + k3)"
    by simp
  with b show "(a * 262144 + k1 * 4096 + k2 * 64 + k3) div 262144 = a" by simp
  from assms(3-6) have d: "((a * 64 + k1) * 4096 + k2 * 64 + k3) div 4096 = a * 64 + k1"
    by (rule div_mod_4096)
  from assms(1,2) have "(a * 64 + k1) mod 64 = k1" by (rule div_mod_64)
  with d show "(a * 262144 + k1 * 4096 + k2 * 64 + k3) div 4096 mod 64 = k1"
    by (simp only: e)
  from assms(3-6) have "((a * 64 + k1) * 4096 + k2 * 64 + k3) div 64 mod 64 = k2"
    by (rule div_mod_4096)
  then show "(a * 262144 + k1 * 4096 + k2 * 64 + k3) div 64 mod 64 = k2" by (simp only: e)
  from assms(3-6) have "((a * 64 + k1) * 4096 + k2 * 64 + k3) mod 64 = k3"
    by (rule div_mod_4096)
  then show "(a * 262144 + k1 * 4096 + k2 * 64 + k3) mod 64 = k3" by (simp only: e)
qed

lemma cont_bits_range:
  "is_cont b \<Longrightarrow> 0 \<le> cont_bits b \<and> cont_bits b < 64"
  by (simp add: is_cont_def cont_bits_def)

lemma cont_byte: "128 + word_of_int (cont_bits b) = b"
  by (simp add: cont_bits_def)

lemma utf8_encode_char_1:
  "uint b < 128 \<Longrightarrow> utf8_encode_char (uint b) = Some [b]"
  by (simp add: utf8_encode_char_def)

lemma utf8_encode_char_2:
  assumes "194 \<le> uint b" "uint b \<le> 223" "is_cont c1"
  shows "utf8_encode_char ((uint b - 192) * 64 + cont_bits c1) = Some [b, c1]"
proof -
  define cp where "cp = (uint b - 192) * 64 + cont_bits c1"
  from cont_bits_range [OF assms(3)] have k: "0 \<le> cont_bits c1" "cont_bits c1 < 64" by simp_all
  from k have d: "cp div 64 = uint b - 192" and m: "cp mod 64 = cont_bits c1"
    unfolding cp_def by (rule div_mod_64)+
  from assms(1,2) k have r: "128 \<le> cp" "cp < 2048" by (simp_all add: cp_def)
  from r d m have "utf8_encode_char cp = Some [b, c1]"
    by (simp add: utf8_encode_char_def cont_byte)
  then show ?thesis by (simp only: cp_def)
qed

lemma utf8_encode_char_3:
  assumes "224 \<le> uint b" "uint b \<le> 239" "is_cont c1" "is_cont c2"
    and "2048 \<le> (uint b - 224) * 4096 + cont_bits c1 * 64 + cont_bits c2"
    and "\<not> (55296 \<le> (uint b - 224) * 4096 + cont_bits c1 * 64 + cont_bits c2
            \<and> (uint b - 224) * 4096 + cont_bits c1 * 64 + cont_bits c2 \<le> 57343)"
  shows "utf8_encode_char ((uint b - 224) * 4096 + cont_bits c1 * 64 + cont_bits c2)
           = Some [b, c1, c2]"
proof -
  define cp where "cp = (uint b - 224) * 4096 + cont_bits c1 * 64 + cont_bits c2"
  from cont_bits_range [OF assms(3)] have k1: "0 \<le> cont_bits c1" "cont_bits c1 < 64" by simp_all
  from cont_bits_range [OF assms(4)] have k2: "0 \<le> cont_bits c2" "cont_bits c2 < 64" by simp_all
  from k1 k2 have d: "cp div 4096 = uint b - 224" "cp div 64 mod 64 = cont_bits c1"
    "cp mod 64 = cont_bits c2"
    unfolding cp_def by (rule div_mod_4096)+
  from assms(1,2) k1 k2 have r: "cp < 65536" by (simp add: cp_def)
  from assms(5,6) have s: "2048 \<le> cp" "\<not> (55296 \<le> cp \<and> cp \<le> 57343)"
    unfolding cp_def by blast+
  from r s d have "utf8_encode_char cp = Some [b, c1, c2]"
    by (simp add: utf8_encode_char_def cont_byte)
  then show ?thesis by (simp only: cp_def)
qed

lemma utf8_encode_char_4:
  assumes "240 \<le> uint b" "uint b \<le> 244" "is_cont c1" "is_cont c2" "is_cont c3"
    and "65536 \<le> (uint b - 240) * 262144 + cont_bits c1 * 4096 + cont_bits c2 * 64 + cont_bits c3"
    and "(uint b - 240) * 262144 + cont_bits c1 * 4096 + cont_bits c2 * 64 + cont_bits c3
           \<le> 1114111"
  shows "utf8_encode_char
           ((uint b - 240) * 262144 + cont_bits c1 * 4096 + cont_bits c2 * 64 + cont_bits c3)
           = Some [b, c1, c2, c3]"
proof -
  define cp where
    "cp = (uint b - 240) * 262144 + cont_bits c1 * 4096 + cont_bits c2 * 64 + cont_bits c3"
  from cont_bits_range [OF assms(3)] have k1: "0 \<le> cont_bits c1" "cont_bits c1 < 64" by simp_all
  from cont_bits_range [OF assms(4)] have k2: "0 \<le> cont_bits c2" "cont_bits c2 < 64" by simp_all
  from cont_bits_range [OF assms(5)] have k3: "0 \<le> cont_bits c3" "cont_bits c3 < 64" by simp_all
  from k1 k2 k3 have d: "cp div 262144 = uint b - 240" "cp div 4096 mod 64 = cont_bits c1"
    "cp div 64 mod 64 = cont_bits c2" "cp mod 64 = cont_bits c3"
    unfolding cp_def by (rule div_mod_262144)+
  from assms(6,7) have s: "65536 \<le> cp" "cp \<le> 1114111" unfolding cp_def by blast+
  from s d have "utf8_encode_char cp = Some [b, c1, c2, c3]"
    by (simp add: utf8_encode_char_def cont_byte)
  then show ?thesis by (simp only: cp_def)
qed

lemma utf8_encode_decode:
  "utf8_decode bs = Some s \<Longrightarrow> utf8_encode s = Some bs"
proof (induction bs arbitrary: s rule: utf8_decode.induct)
  case 1
  then show ?case by simp
next
  case (2 b bs)
  define n where "n = uint b"
  consider (one) "n < 128"
    | (two) "194 \<le> n" "n \<le> 223"
    | (three) "224 \<le> n" "n \<le> 239"
    | (four) "240 \<le> n" "n \<le> 244"
    | (bad) "\<not> n < 128" "\<not> (194 \<le> n \<and> n \<le> 223)" "\<not> (224 \<le> n \<and> n \<le> 239)"
        "\<not> (240 \<le> n \<and> n \<le> 244)"
    by linarith
  then show ?case
  proof cases
    case one
    with "2.prems" obtain r where r: "utf8_decode bs = Some r" and s: "s = n # r"
      by (auto simp: n_def Let_def)
    from "2.IH"(1) [OF n_def one r] have "utf8_encode r = Some bs" .
    with one s show ?thesis by (simp add: n_def utf8_encode_char_1)
  next
    case two
    then have n1: "\<not> n < 128" by simp
    define cpf where "cpf = (\<lambda>c1. (n - 192) * 64 + cont_bits c1)"
    from two "2.prems" n1 obtain c1 rest r where
      bs: "bs = c1 # rest" and c1: "is_cont c1" and r: "utf8_decode rest = Some r"
      and s: "s = cpf c1 # r"
      by (auto simp: n_def cpf_def Let_def split: list.splits if_splits)
    from two have t: "194 \<le> n \<and> n \<le> 223" by simp
    from "2.IH"(2) [OF n_def n1 t bs c1 r] have "utf8_encode r = Some rest" .
    moreover from two c1 have "utf8_encode_char (cpf c1) = Some [b, c1]"
      unfolding cpf_def n_def by (intro utf8_encode_char_2) simp_all
    ultimately show ?thesis using s bs by simp
  next
    case three
    then have n1: "\<not> n < 128" and n2: "\<not> (194 \<le> n \<and> n \<le> 223)" by simp_all
    define cpf where "cpf = (\<lambda>c1 c2. (n - 224) * 4096 + cont_bits c1 * 64 + cont_bits c2)"
    from three "2.prems" n1 n2 obtain c1 c2 rest r where
      bs: "bs = c1 # c2 # rest" and c: "is_cont c1" "is_cont c2"
      and rng: "2048 \<le> cpf c1 c2" "\<not> (55296 \<le> cpf c1 c2 \<and> cpf c1 c2 \<le> 57343)"
      and r: "utf8_decode rest = Some r" and s: "s = cpf c1 c2 # r"
      by (auto simp: n_def cpf_def Let_def split: list.splits if_splits)
    from three have t: "224 \<le> n \<and> n \<le> 239" by simp
    from c rng have cond: "is_cont c1 \<and> is_cont c2 \<and> 2048 \<le> cpf c1 c2
        \<and> \<not> (55296 \<le> cpf c1 c2 \<and> cpf c1 c2 \<le> 57343)" by simp
    from "2.IH"(3) [OF n_def n1 n2 t bs refl refl cond [unfolded cpf_def] r]
    have "utf8_encode r = Some rest" .
    moreover from three c rng have "utf8_encode_char (cpf c1 c2) = Some [b, c1, c2]"
      unfolding cpf_def n_def by (intro utf8_encode_char_3) simp_all
    ultimately show ?thesis using s bs by simp
  next
    case four
    then have n1: "\<not> n < 128" and n2: "\<not> (194 \<le> n \<and> n \<le> 223)"
      and n3: "\<not> (224 \<le> n \<and> n \<le> 239)" by simp_all
    define cpf where
      "cpf = (\<lambda>c1 c2 c3. (n - 240) * 262144 + cont_bits c1 * 4096 + cont_bits c2 * 64 + cont_bits c3)"
    from four "2.prems" n1 n2 n3 obtain c1 c2 c3 rest r where
      bs: "bs = c1 # c2 # c3 # rest" and c: "is_cont c1" "is_cont c2" "is_cont c3"
      and rng: "65536 \<le> cpf c1 c2 c3" "cpf c1 c2 c3 \<le> 1114111"
      and r: "utf8_decode rest = Some r" and s: "s = cpf c1 c2 c3 # r"
      by (auto simp: n_def cpf_def Let_def split: list.splits if_splits)
    from four have t: "240 \<le> n \<and> n \<le> 244" by simp
    from c rng have cond: "is_cont c1 \<and> is_cont c2 \<and> is_cont c3 \<and> 65536 \<le> cpf c1 c2 c3
        \<and> cpf c1 c2 c3 \<le> 1114111" by simp
    from "2.IH"(4) [OF n_def n1 n2 n3 t bs refl refl refl cond [unfolded cpf_def] r]
    have "utf8_encode r = Some rest" .
    moreover from four c rng have "utf8_encode_char (cpf c1 c2 c3) = Some [b, c1, c2, c3]"
      unfolding cpf_def n_def by (intro utf8_encode_char_4) simp_all
    ultimately show ?thesis using s bs by simp
  next
    case bad
    with "2.prems" show ?thesis by (auto simp: n_def Let_def split: if_splits)
  qed
qed

lemma utf8_encode_append:
  "utf8_encode (xs @ ys) =
     (case utf8_encode xs of
        None \<Rightarrow> None
      | Some a \<Rightarrow> map_option ((@) a) (utf8_encode ys))"
proof (induction xs)
  case Nil
  show ?case by (cases "utf8_encode ys") simp_all
next
  case (Cons x xs)
  then show ?case
    by (cases "utf8_encode_char x"; cases "utf8_encode xs"; cases "utf8_encode ys") simp_all
qed

lemma utf8_encode_split:
  assumes "utf8_encode s = Some bs"
  shows "\<exists>pre post. bs = pre @ post \<and> utf8_encode (take i s) = Some pre
           \<and> utf8_encode (drop i s) = Some post"
proof -
  have "utf8_encode (take i s @ drop i s) = Some bs" using assms by simp
  then show ?thesis
    unfolding utf8_encode_append by (auto split: option.splits)
qed

lemma universal_newlines_id:
  "13 \<notin> set s \<Longrightarrow> universal_newlines s = s"
  by (induction s) simp_all

lemma read_text_file:
  assumes "node_at t p = Some (File bs)" and "utf8_decode bs = Some s"
  shows "read_text t p = Inr (universal_newlines s)"
  using assms by (simp add: read_text_def node_at_def split: sum.splits)

lemma write_text_config:
  assumes conf: "node_at t MKDOCS_YML = Some (File bs)" and enc: "utf8_encode s = Some out"
  shows "write_text t MKDOCS_YML s = (Inr (), put_node t MKDOCS_YML (File out))"
    and "node_at (put_node t MKDOCS_YML (File out)) MKDOCS_YML = Some (File out)"
proof -
  obtain es where t: "t = Dir es"
    using conf by (cases t) (simp_all add: MKDOCS_YML_def)
  from conf have nd: "\<not> is_dir t MKDOCS_YML" by (simp add: is_dir_def)
  from t nd enc show "write_text t MKDOCS_YML s = (Inr (), put_node t MKDOCS_YML (File out))"
    by (simp add: write_text_def MKDOCS_YML_def)
  from t have "is_dir t (butlast MKDOCS_YML)" by (simp add: is_dir_def MKDOCS_YML_def)
  then show "node_at (put_node t MKDOCS_YML (File out)) MKDOCS_YML = Some (File out)"
    by (intro node_at_put_node_same) (simp_all add: MKDOCS_YML_def)
qed

lemma update_mkdocs_nav_writes:
  assumes conf: "node_at t MKDOCS_YML = Some (File bs)"
    and dec: "utf8_decode bs = Some s"
    and nav: "render_nav_yaml t = Inr nav_yaml"
    and enc: "utf8_encode (spliced_text (universal_newlines s) nav_yaml) = Some out"
  shows "update_mkdocs_nav t = (Inr (), put_node t MKDOCS_YML (File out))"
proof -
  from conf have "path_exists t MKDOCS_YML" by (simp add: path_exists_def)
  with read_text_file [OF conf dec] nav write_text_config(1) [OF conf enc]
  show ?thesis by (simp add: update_mkdocs_nav_def)
qed

text \<open>
  Claim C4, as the code has it. Let the configuration document be valid UTF-8 without a
  carriage return (the file is read in text mode, which turns \<open>\r\n\<close> and \<open>\r\<close> into
  \<open>\n\<close>), and let the manifest be rendered and encodable. The marker is a line that
  starts with \<open>nav:\<close> and continues with white space only, up to a line end or the end of
  the text (the pattern is \<open>^nav:\s*$\<close>, so blanks after the token are accepted, and so
  are further empty lines). If there is such a line, the file written is the bytes of the
  document that precede the first of them, byte for byte, followed by the bytes of the
  rendered manifest; if there is none, the file written is all the bytes of the document,
  a line end unless the document already ends with one, one more line end, and the bytes of
  the rendered manifest.
\<close>

theorem update_mkdocs_nav_keeps_bytes_before_nav_line:
  assumes "node_at t MKDOCS_YML = Some (File bs)"
    and "utf8_decode bs = Some text"
    and "13 \<notin> set text"
    and "render_nav_yaml t = Inr nav_yaml"
    and "utf8_encode nav_yaml = Some nav_bytes"
  shows "(nav_match_at text True i \<and> \<not> (\<exists>j<i. nav_match_at text True j) \<longrightarrow>
           (\<exists>pre post.
              bs = pre @ post
              \<and> utf8_encode (take i text) = Some pre
              \<and> utf8_encode (drop i text) = Some post
              \<and> update_mkdocs_nav t = (Inr (), put_node t MKDOCS_YML (File (pre @ nav_bytes)))
              \<and> node_at (put_node t MKDOCS_YML (File (pre @ nav_bytes))) MKDOCS_YML
                  = Some (File (pre @ nav_bytes))))
       \<and> (\<not> (\<exists>j. nav_match_at text True j) \<longrightarrow>
            update_mkdocs_nav t
              = (Inr (), put_node t MKDOCS_YML
                   (File (bs @ (if endswith text [10] then [] else [10]) @ [10] @ nav_bytes)))
            \<and> node_at (put_node t MKDOCS_YML
                   (File (bs @ (if endswith text [10] then [] else [10]) @ [10] @ nav_bytes)))
                 MKDOCS_YML
                = Some (File (bs @ (if endswith text [10] then [] else [10]) @ [10] @ nav_bytes)))
       \<and> (nav_match_here s \<longleftrightarrow>
            (\<exists>ws rest. s = str ''nav:'' @ ws @ rest \<and> (\<forall>c \<in> set ws. isspace c)
                       \<and> (rest = [] \<or> hd rest = 10)))"
proof (intro conjI impI)
  note conf = assms(1) and dec = assms(2) and nav = assms(4) and enc = assms(5)
  from assms(3) have un: "universal_newlines text = text" by (rule universal_newlines_id)
  from dec have whole: "utf8_encode text = Some bs" by (rule utf8_encode_decode)
  have lf: "utf8_encode_char 10 = Some [10]" by (simp add: utf8_encode_char_def)
  {
    assume "nav_match_at text True i \<and> \<not> (\<exists>j<i. nav_match_at text True j)"
    then have found: "nav_search text = Some i" by (simp add: nav_search_first)
    from utf8_encode_split [OF whole, of i] obtain pre post where
      parts: "bs = pre @ post" "utf8_encode (take i text) = Some pre"
        "utf8_encode (drop i text) = Some post"
      by blast
    from found parts(2) enc
    have "utf8_encode (spliced_text (universal_newlines text) nav_yaml) = Some (pre @ nav_bytes)"
      by (simp add: un spliced_text_def utf8_encode_append)
    from update_mkdocs_nav_writes [OF conf dec nav this] write_text_config(2) [OF conf this] parts
    show "\<exists>pre post.
              bs = pre @ post
              \<and> utf8_encode (take i text) = Some pre
              \<and> utf8_encode (drop i text) = Some post
              \<and> update_mkdocs_nav t = (Inr (), put_node t MKDOCS_YML (File (pre @ nav_bytes)))
              \<and> node_at (put_node t MKDOCS_YML (File (pre @ nav_bytes))) MKDOCS_YML
                  = Some (File (pre @ nav_bytes))"
      by blast
  }
  {
    assume "\<not> (\<exists>j. nav_match_at text True j)"
    then have none: "nav_search text = None" by (rule nav_search_none)
    define out where
      "out = bs @ (if endswith text [10] then [] else [10]) @ [10] @ nav_bytes"
    from none whole enc lf
    have e: "utf8_encode (spliced_text (universal_newlines text) nav_yaml) = Some out"
      by (simp add: un spliced_text_def utf8_encode_append out_def)
    from update_mkdocs_nav_writes [OF conf dec nav e]
    show "update_mkdocs_nav t
              = (Inr (), put_node t MKDOCS_YML
                   (File (bs @ (if endswith text [10] then [] else [10]) @ [10] @ nav_bytes)))"
      by (simp only: out_def)
    from write_text_config(2) [OF conf e]
    show "node_at (put_node t MKDOCS_YML
                   (File (bs @ (if endswith text [10] then [] else [10]) @ [10] @ nav_bytes)))
                 MKDOCS_YML
                = Some (File (bs @ (if endswith text [10] then [] else [10]) @ [10] @ nav_bytes))"
      by (simp only: out_def)
  }
  show "nav_match_here s \<longleftrightarrow>
        (\<exists>ws rest. s = str ''nav:'' @ ws @ rest \<and> (\<forall>c \<in> set ws. isspace c)
                   \<and> (rest = [] \<or> hd rest = 10))"
    by (rule nav_match_here_iff)
qed

theorem update_mkdocs_nav_keeps_bytes_before_nav_line_witness:
  "node_at (config_site (ascii_bytes config_two_navs)) MKDOCS_YML
     = Some (File (ascii_bytes config_two_navs))
   \<and> utf8_decode (ascii_bytes config_two_navs) = Some config_two_navs
   \<and> 13 \<notin> set config_two_navs
   \<and> render_nav_yaml (config_site (ascii_bytes config_two_navs)) = Inr bare_nav
   \<and> utf8_encode bare_nav = Some (ascii_bytes bare_nav)
   \<and> nav_match_at config_two_navs True 13
   \<and> \<not> (\<exists>j<13. nav_match_at config_two_navs True j)
   \<and> take 13 (ascii_bytes config_two_navs) = bytes ''site_name: x'' @ [10]
   \<and> update_mkdocs_nav (config_site (ascii_bytes config_two_navs))
       = (Inr (), put_node (config_site (ascii_bytes config_two_navs)) MKDOCS_YML
            (File (bytes ''site_name: x'' @ [10] @ ascii_bytes bare_nav)))
   \<and> node_at (config_site (ascii_bytes config_no_nav)) MKDOCS_YML
       = Some (File (ascii_bytes config_no_nav))
   \<and> utf8_decode (ascii_bytes config_no_nav) = Some config_no_nav
   \<and> 13 \<notin> set config_no_nav
   \<and> render_nav_yaml (config_site (ascii_bytes config_no_nav)) = Inr bare_nav
   \<and> \<not> (\<exists>j. nav_match_at config_no_nav True j)
   \<and> update_mkdocs_nav (config_site (ascii_bytes config_no_nav))
       = (Inr (), put_node (config_site (ascii_bytes config_no_nav)) MKDOCS_YML
            (File (bytes ''site_name: x'' @ [10, 10] @ ascii_bytes bare_nav)))"
proof -
  let ?t = "config_site (ascii_bytes config_two_navs)"
  let ?u = "config_site (ascii_bytes config_no_nav)"
  have conf: "node_at ?t MKDOCS_YML = Some (File (ascii_bytes config_two_navs))" by code_simp
  have dec: "utf8_decode (ascii_bytes config_two_navs) = Some config_two_navs" by code_simp
  have nocr: "13 \<notin> set config_two_navs" by code_simp
  have nav: "render_nav_yaml ?t = Inr bare_nav" by code_simp
  have enc: "utf8_encode bare_nav = Some (ascii_bytes bare_nav)" by code_simp
  have "nav_search_from config_two_navs True 0 = Some 13" by code_simp
  from nav_search_from_Some [OF this]
  have first: "nav_match_at config_two_navs True 13 \<and> \<not> (\<exists>j<13. nav_match_at config_two_navs True j)"
    by simp
  have pre: "utf8_encode (take 13 config_two_navs) = Some (bytes ''site_name: x'' @ [10])"
    by code_simp
  have tk: "take 13 (ascii_bytes config_two_navs) = bytes ''site_name: x'' @ [10]" by code_simp
  from update_mkdocs_nav_keeps_bytes_before_nav_line [OF conf dec nocr nav enc, of 13 "[]"] first pre
  have one: "update_mkdocs_nav ?t
       = (Inr (), put_node ?t MKDOCS_YML (File (bytes ''site_name: x'' @ [10] @ ascii_bytes bare_nav)))"
    by auto
  have conf': "node_at ?u MKDOCS_YML = Some (File (ascii_bytes config_no_nav))" by code_simp
  have dec': "utf8_decode (ascii_bytes config_no_nav) = Some config_no_nav" by code_simp
  have nocr': "13 \<notin> set config_no_nav" by code_simp
  have nav': "render_nav_yaml ?u = Inr bare_nav" by code_simp
  have "nav_search_from config_no_nav True 0 = None" by code_simp
  then have none: "\<not> (\<exists>j. nav_match_at config_no_nav True j)"
    by (auto dest: nav_search_from_None)
  have e: "\<not> endswith config_no_nav [10]"
    "ascii_bytes config_no_nav = bytes ''site_name: x''"
    by code_simp+
  from update_mkdocs_nav_keeps_bytes_before_nav_line [OF conf' dec' nocr' nav' enc, of 0 "[]"] none e
  have two: "update_mkdocs_nav ?u
       = (Inr (), put_node ?u MKDOCS_YML (File (bytes ''site_name: x'' @ [10, 10] @ ascii_bytes bare_nav)))"
    by simp
  from conf dec nocr nav enc first tk one conf' dec' nocr' nav' none two show ?thesis
    by blast
qed

text \<open>
  The claim as stated fails in three ways. In \<open>config_two_navs\<close> the first line that is
  exactly \<open>nav:\<close> starts at offset 28, but the document is cut at offset 13, where a line
  \<open>nav:\<close> with a trailing blank starts, so the line \<open>extra: 1\<close> is lost. In
  \<open>config_blank_nav\<close> no line is exactly \<open>nav:\<close>, yet the manifest is not appended to
  the whole document: it is cut at offset 13 again. In \<open>config_crlf\<close>, whose lines end
  with \<open>\r\n\<close>, the second line is exactly \<open>nav:\<close> and starts at byte 14; the file
  written starts with the 13 bytes of the first line and a bare \<open>\n\<close>, not with the 14
  bytes that preceded the marker.
\<close>

theorem update_mkdocs_nav_exact_line_counterexample:
  "splitlines config_two_navs
     = [str ''site_name: x'', str ''nav: '', str ''extra: 1'', str ''nav:'', str ''  - Old: old.md'']
   \<and> take 28 (ascii_bytes config_two_navs)
       = bytes ''site_name: x'' @ [10] @ bytes ''nav: '' @ [10] @ bytes ''extra: 1'' @ [10]
   \<and> update_mkdocs_nav (config_site (ascii_bytes config_two_navs))
       = (Inr (), config_site (bytes ''site_name: x'' @ [10] @ ascii_bytes bare_nav))
   \<and> bytes ''site_name: x'' @ [10] @ ascii_bytes bare_nav
       \<noteq> take 28 (ascii_bytes config_two_navs) @ ascii_bytes bare_nav
   \<and> str ''nav:'' \<notin> set (splitlines config_blank_nav)
   \<and> update_mkdocs_nav (config_site (ascii_bytes config_blank_nav))
       = (Inr (), config_site (bytes ''site_name: x'' @ [10] @ ascii_bytes bare_nav))
   \<and> bytes ''site_name: x'' @ [10] @ ascii_bytes bare_nav
       \<noteq> ascii_bytes config_blank_nav @ [10] @ ascii_bytes bare_nav
   \<and> map_option splitlines (utf8_decode config_crlf)
       = Some [str ''site_name: x'', str ''nav:'', str ''  - Old: old.md'']
   \<and> take 14 config_crlf = bytes ''site_name: x'' @ [13, 10]
   \<and> drop 14 config_crlf = bytes ''nav:'' @ [13, 10] @ bytes ''  - Old: old.md'' @ [13, 10]
   \<and> update_mkdocs_nav (config_site config_crlf)
       = (Inr (), config_site (bytes ''site_name: x'' @ [10] @ ascii_bytes bare_nav))
   \<and> \<not> prefix (take 14 config_crlf) (bytes ''site_name: x'' @ [10] @ ascii_bytes bare_nav)"
proof -
  have a: "splitlines config_two_navs
     = [str ''site_name: x'', str ''nav: '', str ''extra: 1'', str ''nav:'', str ''  - Old: old.md'']"
    by code_simp
  have b: "take 28 (ascii_bytes config_two_navs)
       = bytes ''site_name: x'' @ [10] @ bytes ''nav: '' @ [10] @ bytes ''extra: 1'' @ [10]"
    by code_simp
  have c: "update_mkdocs_nav (config_site (ascii_bytes config_two_navs))
       = (Inr (), config_site (bytes ''site_name: x'' @ [10] @ ascii_bytes bare_nav))"
    by code_simp
  have d: "bytes ''site_name: x'' @ [10] @ ascii_bytes bare_nav
       \<noteq> take 28 (ascii_bytes config_two_navs) @ ascii_bytes bare_nav"
    by code_simp
  have e: "str ''nav:'' \<notin> set (splitlines config_blank_nav)" by code_simp
  have f: "update_mkdocs_nav (config_site (ascii_bytes config_blank_nav))
       = (Inr (), config_site (bytes ''site_name: x'' @ [10] @ ascii_bytes bare_nav))"
    by code_simp
  have g: "bytes ''site_name: x'' @ [10] @ ascii_bytes bare_nav
       \<noteq> ascii_bytes config_blank_nav @ [10] @ ascii_bytes bare_nav"
    by code_simp
  have h: "map_option splitlines (utf8_decode config_crlf)
       = Some [str ''site_name: x'', str ''nav:'', str ''  - Old: old.md'']"
    by code_simp
  have i: "take 14 config_crlf = bytes ''site_name: x'' @ [13, 10]" by code_simp
  have j: "drop 14 config_crlf = bytes ''nav:'' @ [13, 10] @ bytes ''  - Old: old.md'' @ [13, 10]"
    by code_simp
  have k: "update_mkdocs_nav (config_site config_crlf)
       = (Inr (), config_site (bytes ''site_name: x'' @ [10] @ ascii_bytes bare_nav))"
    by code_simp
  have l: "\<not> prefix (take 14 config_crlf) (bytes ''site_name: x'' @ [10] @ ascii_bytes bare_nav)"
    by code_simp
  from a b c d e f g h i j k l show ?thesis by blast
qed

subsection \<open>The interactive command\<close>

lemma node_at_put_node_other_top:
  "x \<noteq> y \<Longrightarrow> node_at (put_node t (x # xs) n) (y # ys) = node_at t (y # ys)"
  by (cases t) (simp_all add: update_conv' split: option.splits)

lemma node_at_del_node_other_top:
  "x \<noteq> y \<Longrightarrow> node_at (del_node t (x # xs)) (y # ys) = node_at t (y # ys)"
  by (cases t) (simp_all add: update_conv' delete_conv' split: option.splits)

lemma os_mkdir_other_top:
  assumes "os_mkdir t p = Inr t'" and "p = [] \<or> hd p \<noteq> y"
  shows "node_at t' (y # ys) = node_at t (y # ys)"
proof -
  from os_mkdir_Inr [OF assms(1)] have ne: "p \<noteq> []" and t': "t' = put_node t p (Dir [])"
    by simp_all
  from ne obtain x xs where p: "p = x # xs" by (cases p) auto
  with assms(2) t' show ?thesis by (simp add: node_at_put_node_other_top)
qed

lemma mkdir_other_top:
  assumes "mkdir t p ok = Inr t'" and "p = [] \<or> hd p \<noteq> y"
  shows "node_at t' (y # ys) = node_at t (y # ys)"
proof (cases "os_mkdir t p")
  case (Inr t1)
  with assms(1) have "t' = t1" by (simp add: mkdir_def)
  with os_mkdir_other_top [OF Inr assms(2)] show ?thesis by simp
next
  case (Inl e)
  with assms(1) have "t' = t" by (simp add: mkdir_def split: if_splits)
  then show ?thesis by simp
qed

lemma mkdir_parents_other_top:
  "mkdir_parents t p = (r, t') \<Longrightarrow> p = [] \<or> hd p \<noteq> y \<Longrightarrow>
     node_at t' (y # ys) = node_at t (y # ys)"
proof (induction t p arbitrary: t' r rule: mkdir_parents.induct)
  case (1 t p)
  show ?case
  proof (cases "os_mkdir t p")
    case (Inr t1)
    with "1.prems"(1) have "t' = t1" by (subst (asm) mkdir_parents.simps) simp
    with os_mkdir_other_top [OF Inr "1.prems"(2)] show ?thesis by simp
  next
    case (Inl e0)
    show ?thesis
    proof (cases "e0 = FileNotFoundError \<and> p \<noteq> []")
      case False
      with Inl "1.prems"(1) have "t' = t"
        by (subst (asm) mkdir_parents.simps) (auto split: if_splits)
      then show ?thesis by simp
    next
      case True
      with Inl have fnf: "os_mkdir t p = Inl FileNotFoundError" and ne: "p \<noteq> []" by simp_all
      obtain r1 t1 where rec: "mkdir_parents t (butlast p) = (r1, t1)"
        by (cases "mkdir_parents t (butlast p)")
      from ne "1.prems"(2) have "butlast p = [] \<or> hd (butlast p) \<noteq> y"
        by (cases p) (auto split: if_splits)
      from "1.IH" [OF fnf refl ne rec this]
      have s1: "node_at t1 (y # ys) = node_at t (y # ys)" .
      show ?thesis
      proof (cases "\<exists>t2. r1 = Inr () \<and> mkdir t1 p True = Inr t2")
        case False
        with rec fnf ne "1.prems"(1) have "t' = t1"
          by (subst (asm) mkdir_parents.simps) (auto split: sum.splits)
        with s1 show ?thesis by simp
      next
        case True
        then obtain t2 where r1: "r1 = Inr ()" and m: "mkdir t1 p True = Inr t2" by blast
        with rec fnf ne "1.prems"(1) have "t' = t2"
          by (subst (asm) mkdir_parents.simps) simp
        with mkdir_other_top [OF m "1.prems"(2)] s1 show ?thesis by simp
      qed
    qed
  qed
qed

lemma os_rename_other_top:
  assumes "os_rename t src dst = Inr t'" and "src \<noteq> []" and "hd src \<noteq> y"
    and "dst \<noteq> []" and "hd dst \<noteq> y"
  shows "node_at t' (y # ys) = node_at t (y # ys)"
proof -
  from assms(2,4) obtain a as b bs where s: "src = a # as" and d: "dst = b # bs"
    by (cases src; cases dst) auto
  from assms(1) consider "t' = t" | n where "t' = put_node (del_node t src) dst n"
    by (auto simp: os_rename_def split: sum.splits if_splits node.splits option.splits)
  then show ?thesis
  proof cases
    case 1
    then show ?thesis by simp
  next
    case 2
    with s d assms(3,5) show ?thesis
      by (simp add: node_at_put_node_other_top node_at_del_node_other_top)
  qed
qed

lemma shutil_move_other_top:
  assumes "shutil_move t src dst = Inr t'" and "src \<noteq> []" and "hd src \<noteq> y"
    and "dst \<noteq> []" and "hd dst \<noteq> y"
  shows "node_at t' (y # ys) = node_at t (y # ys)"
proof -
  define real_dst where "real_dst = (if is_dir t dst then dst @ [basename src] else dst)"
  from assms(4,5) have rd: "real_dst \<noteq> []" "hd real_dst \<noteq> y"
    by (auto simp: real_dst_def)
  from assms(1) have "os_rename t src real_dst = Inr t'"
    by (auto simp: shutil_move_def real_dst_def Let_def split: if_splits sum.splits)
  from os_rename_other_top [OF this assms(2,3) rd] show ?thesis .
qed

lemma move_article_other_top:
  assumes "move_article src_root dst_root rel force t = (r, t')"
    and "src_root \<noteq> []" and "hd src_root \<noteq> y" and "dst_root \<noteq> []" and "hd dst_root \<noteq> y"
  shows "node_at t' (y # ys) = node_at t (y # ys)"
proof -
  define src where "src = src_root @ rel"
  define dst where "dst = dst_root @ rel"
  from assms(2-5) have s: "src \<noteq> []" "hd src \<noteq> y" and d: "dst \<noteq> []" "hd dst \<noteq> y"
    by (simp_all add: src_def dst_def)
  from d have bl: "butlast dst = [] \<or> hd (butlast dst) \<noteq> y"
    by (cases dst) (auto split: if_splits)
  obtain r1 t1 where mk: "mkdir_parents t (butlast dst) = (r1, t1)"
    by (cases "mkdir_parents t (butlast dst)")
  from mkdir_parents_other_top [OF mk bl]
  have f1: "node_at t1 (y # ys) = node_at t (y # ys)" .
  from d obtain b bs where dc: "dst = b # bs" and "b \<noteq> y" by (cases dst) auto
  then have f2: "node_at (del_node t1 dst) (y # ys) = node_at t1 (y # ys)"
    by (simp add: node_at_del_node_other_top)
  have mv: "node_at t3 (y # ys) = node_at tx (y # ys)" if "shutil_move tx src dst = Inr t3" for tx t3
    using shutil_move_other_top [OF that s d] .
  have sm: "node_at t' (y # ys) = node_at tx (y # ys)"
    if "(case shutil_move tx src dst of Inl e \<Rightarrow> (Inl e, tx) | Inr t3 \<Rightarrow> (Inr (), t3)) = (r, t')"
    for tx
  proof (cases "shutil_move tx src dst")
    case (Inl e)
    with that show ?thesis by simp
  next
    case (Inr t3)
    with that mv [OF Inr] show ?thesis by simp
  qed
  show ?thesis
  proof (cases r1)
    case (Inl e1)
    with assms(1) mk have "t' = t1" by (simp add: move_article_def dst_def)
    with f1 show ?thesis by simp
  next
    case (Inr u)
    show ?thesis
    proof (cases "path_exists t1 dst")
      case False
      with assms(1) mk Inr
      have "(case shutil_move t1 src dst of Inl e \<Rightarrow> (Inl e, t1) | Inr t3 \<Rightarrow> (Inr (), t3)) = (r, t')"
        by (simp add: move_article_def dst_def [symmetric] src_def [symmetric])
      from sm [OF this] f1 show ?thesis by simp
    next
      case ex: True
      show ?thesis
      proof (cases "\<not> force \<or> is_dir t1 dst")
        case True
        with assms(1) mk Inr ex have "t' = t1"
          by (auto simp: move_article_def dst_def [symmetric] split: if_splits)
        with f1 show ?thesis by simp
      next
        case False
        then have fo: "force" and nd: "\<not> is_dir t1 dst" by simp_all
        from unlink_file [OF ex nd] have ul: "unlink t1 dst = Inr (del_node t1 dst)" .
        with assms(1) mk Inr ex fo nd
        have "(case shutil_move (del_node t1 dst) src dst of
                 Inl e \<Rightarrow> (Inl e, del_node t1 dst) | Inr t3 \<Rightarrow> (Inr (), t3)) = (r, t')"
          by (simp add: move_article_def dst_def [symmetric] src_def [symmetric])
        from sm [OF this] f1 f2 show ?thesis by simp
      qed
    qed
  qed
qed

lemma print_fs [simp]: "fs (print s w) = fs w"
  by (simp add: print_def)

lemma print_err_fs [simp]: "fs (print_err s w) = fs w"
  by (simp add: print_err_def)

lemma print_all_fs [simp]: "fs (print_all ls w) = fs w"
  by (induction ls arbitrary: w) simp_all

lemma print_items_fs [simp]: "fs (print_items k items w) = fs w"
  by (induction items arbitrary: k w) simp_all

lemma input_fs: "input prompt w = (r, w') \<Longrightarrow> fs w' = fs w"
  by (auto simp: input_def Let_def split: list.splits)

lemma prompt_indices_fs:
  assumes "prompt_indices items prompt w = (r, w')"
  shows "fs w' = fs w"
proof (cases "items = []")
  case True
  with assms show ?thesis by (simp add: prompt_indices_def)
next
  case False
  obtain r1 w1 where i: "input prompt (print_items 1 items w) = (r1, w1)"
    by (cases "input prompt (print_items 1 items w)")
  from input_fs [OF i] have "fs w1 = fs w" by simp
  moreover from assms False i have "w' = w1"
    by (auto simp: prompt_indices_def Let_def split: sum.splits if_splits)
  ultimately show ?thesis by simp
qed

lemma move_picked_other_top:
  "move_picked src_root dst_root src_items label force picked w = (r, w') \<Longrightarrow>
   src_root \<noteq> [] \<Longrightarrow> hd src_root \<noteq> y \<Longrightarrow> dst_root \<noteq> [] \<Longrightarrow> hd dst_root \<noteq> y \<Longrightarrow>
     node_at (fs w') (y # ys) = node_at (fs w) (y # ys)"
proof (induction picked arbitrary: w)
  case Nil
  then show ?case by simp
next
  case (Cons idx picked)
  show ?case
  proof (cases "idx < 1 \<or> int (length src_items) < idx")
    case True
    with Cons.prems(1) show ?thesis by simp
  next
    case False
    define a where "a = src_items ! nat (idx - 1)"
    obtain r1 t1 where mv: "move_article src_root dst_root (relpath a) force (fs w) = (r1, t1)"
      by (cases "move_article src_root dst_root (relpath a) force (fs w)")
    from move_article_other_top [OF mv Cons.prems(2-5)]
    have f: "node_at t1 (y # ys) = node_at (fs w) (y # ys)" .
    show ?thesis
    proof (cases r1)
      case (Inl e)
      with False mv Cons.prems(1) have "w' = w\<lparr>fs := t1\<rparr>"
        by (simp add: a_def Let_def)
      with f show ?thesis by simp
    next
      case (Inr u)
      with False mv Cons.prems(1)
      have "move_picked src_root dst_root src_items label force picked
              (print (label @ str ''ed: '' @ as_posix (relpath a)) (w\<lparr>fs := t1\<rparr>)) = (r, w')"
        by (simp add: a_def Let_def)
      from Cons.IH [OF this Cons.prems(2-5)] f show ?thesis by simp
    qed
  qed
qed

lemma stores_not_config:
  "DOCS_DIR \<noteq> []" "DRAFTS_DIR \<noteq> []" "hd DOCS_DIR \<noteq> str ''mkdocs.yml''"
  "hd DRAFTS_DIR \<noteq> str ''mkdocs.yml''" "MKDOCS_YML = str ''mkdocs.yml'' # []"
  by (simp_all add: DOCS_DIR_def DRAFTS_DIR_def MKDOCS_YML_def str_def)

lemma write_text_Inl:
  "write_text t p s = (Inl e, t') \<Longrightarrow> e \<noteq> UnicodeEncodeError \<Longrightarrow> t' = t"
  by (auto simp: write_text_def split: if_splits sum.splits node.splits option.splits)

lemma update_mkdocs_nav_Inl:
  "update_mkdocs_nav t = (Inl e, t') \<Longrightarrow> e \<noteq> UnicodeEncodeError \<Longrightarrow> t' = t"
  by (auto simp: update_mkdocs_nav_def split: if_splits sum.splits dest: write_text_Inl)

lemma move_selected_failed_move:
  assumes "src_items \<noteq> []"
    and "prompt_indices (map (\<lambda>a. as_posix (relpath a)) src_items) select_prompt w
           = (Inr picked, w1)"
    and "move_picked src_root dst_root src_items label force picked w1 = (Inl e, w2)"
  shows "move_selected src_root dst_root src_items label force w = (Inl e, w2)"
  using assms by (simp add: move_selected_def)

lemma move_selected_Inl:
  assumes "move_selected src_root dst_root src_items label force w = (Inl e, w')"
    and "e \<noteq> UnicodeEncodeError"
    and "src_root \<noteq> []" "hd src_root \<noteq> y" "dst_root \<noteq> []" "hd dst_root \<noteq> y"
  shows "node_at (fs w') (y # ys) = node_at (fs w) (y # ys)"
proof -
  from assms(1) have ne: "src_items \<noteq> []"
    by (auto simp: move_selected_def split: if_splits)
  obtain r1 w1 where pr: "prompt_indices (map (\<lambda>a. as_posix (relpath a)) src_items) select_prompt w
           = (r1, w1)"
    by (cases "prompt_indices (map (\<lambda>a. as_posix (relpath a)) src_items) select_prompt w")
  from prompt_indices_fs [OF pr] have f1: "fs w1 = fs w" .
  show ?thesis
  proof (cases r1)
    case (Inl e1)
    with assms(1) ne pr have "w' = w1"
      by (cases e1) (auto simp: move_selected_def)
    with f1 show ?thesis by simp
  next
    case (Inr picked)
    obtain r2 w2 where mp: "move_picked src_root dst_root src_items label force picked w1 = (r2, w2)"
      by (cases "move_picked src_root dst_root src_items label force picked w1")
    from move_picked_other_top [OF mp assms(3-6)] f1
    have f2: "node_at (fs w2) (y # ys) = node_at (fs w) (y # ys)" by simp
    show ?thesis
    proof (cases r2)
      case (Inl e2)
      with assms(1) ne pr Inr mp have "w' = w2" by (simp add: move_selected_def)
      with f2 show ?thesis by simp
    next
      case u: (Inr u)
      obtain r3 t3 where up: "update_mkdocs_nav (fs w2) = (r3, t3)"
        by (cases "update_mkdocs_nav (fs w2)")
      with assms(1) ne pr Inr mp u have r3: "r3 = Inl e" and w': "w' = w2\<lparr>fs := t3\<rparr>"
        by (auto simp: move_selected_def split: sum.splits)
      from up r3 assms(2) have "t3 = fs w2" by (auto dest: update_mkdocs_nav_Inl)
      with w' f2 show ?thesis by simp
    qed
  qed
qed

lemma interactive_Inl:
  assumes "interactive force w = (Inl e, w')" and "e \<noteq> UnicodeEncodeError"
  shows "node_at (fs w') MKDOCS_YML = node_at (fs w) MKDOCS_YML"
proof (cases "mkdir (fs w) DRAFTS_DIR True")
  case (Inl e0)
  with assms(1) show ?thesis by (simp add: interactive_def)
next
  case (Inr t)
  from mkdir_other_top [OF Inr, of "str ''mkdocs.yml''" "[]"] stores_not_config
  have f0: "node_at t MKDOCS_YML = node_at (fs w) MKDOCS_YML" by simp
  define w1 where "w1 = print_all
                      [str ''Choose an action:'',
                       str ''  1) Unpublish (move docs/ -> drafts/)'',
                       str ''  2) Publish   (move drafts/ -> docs/)'',
                       str ''  3) List'']
                      (w\<lparr>fs := t\<rparr>)"
  obtain r2 w2 where inp: "input (str ''Enter 1/2/3 (or q): '') w1 = (r2, w2)"
    by (cases "input (str ''Enter 1/2/3 (or q): '') w1")
  from input_fs [OF inp] have f2: "fs w2 = t" by (simp add: w1_def)
  show ?thesis
  proof (cases r2)
    case (Inl e2)
    with assms(1) Inr inp have "w' = w2"
      by (simp add: interactive_def w1_def [symmetric] del: print_all.simps)
    with f2 f0 show ?thesis by simp
  next
    case line: (Inr line)
    from assms(1) Inr inp line
    consider
      "move_selected DOCS_DIR DRAFTS_DIR (articles_in_docs (fs w2)) (str ''Unpublish'') force w2
         = (Inl e, w')"
    | "move_selected DRAFTS_DIR DOCS_DIR (articles_in_drafts (fs w2)) (str ''Publish'') force w2
         = (Inl e, w')"
      by (auto simp: interactive_def w1_def [symmetric] Let_def list_cmd_def
               simp del: print_all.simps split: if_splits)
    then have "node_at (fs w') (str ''mkdocs.yml'' # []) = node_at (fs w2) (str ''mkdocs.yml'' # [])"
    proof cases
      case 1
      from move_selected_Inl [OF 1 assms(2) stores_not_config(1,3,2,4)] show ?thesis .
    next
      case 2
      from move_selected_Inl [OF 2 assms(2) stores_not_config(2,4,1,3)] show ?thesis .
    qed
    with f2 f0 stores_not_config(5) show ?thesis by simp
  qed
qed

text \<open>
  Claim C10. When a move of the batch raises, \<open>_interactive\<close> ends with that exception
  right away: \<open>_update_mkdocs_nav\<close> is not reached, so the configuration document is
  what it was when the run began, while the moves made before the failing one stay
  made. More generally, whenever \<open>_interactive\<close> ends with an exception other than a
  failure to encode the new text, the configuration document is what it was.
\<close>

theorem failed_move_skips_nav_update:
  assumes "(src_root, dst_root) = (DOCS_DIR, DRAFTS_DIR) \<or> (src_root, dst_root) = (DRAFTS_DIR, DOCS_DIR)"
    and "src_items \<noteq> []"
    and "prompt_indices (map (\<lambda>a. as_posix (relpath a)) src_items) select_prompt w
           = (Inr picked, w1)"
    and "move_picked src_root dst_root src_items label force picked w1 = (Inl e, w2)"
  shows "move_selected src_root dst_root src_items label force w = (Inl e, w2)
       \<and> node_at (fs w2) MKDOCS_YML = node_at (fs w) MKDOCS_YML
       \<and> (interactive force' w0 = (Inl e', w') \<and> e' \<noteq> UnicodeEncodeError \<longrightarrow>
            node_at (fs w') MKDOCS_YML = node_at (fs w0) MKDOCS_YML)"
proof (intro conjI impI)
  show "move_selected src_root dst_root src_items label force w = (Inl e, w2)"
    using assms(2-4) by (rule move_selected_failed_move)
next
  from assms(1) have roots: "src_root \<noteq> []" "hd src_root \<noteq> str ''mkdocs.yml''"
    "dst_root \<noteq> []" "hd dst_root \<noteq> str ''mkdocs.yml''"
    using stores_not_config by auto
  from move_picked_other_top [OF assms(4) roots, of "[]"] prompt_indices_fs [OF assms(3)]
  show "node_at (fs w2) MKDOCS_YML = node_at (fs w) MKDOCS_YML"
    by (simp add: stores_not_config(5))
next
  assume "interactive force' w0 = (Inl e', w') \<and> e' \<noteq> UnicodeEncodeError"
  then show "node_at (fs w') MKDOCS_YML = node_at (fs w0) MKDOCS_YML"
    by (auto intro: interactive_Inl)
qed

theorem failed_move_skips_nav_update_witness:
  "articles_in_docs site \<noteq> []
   \<and> prompt_indices (map (\<lambda>a. as_posix (relpath a)) (articles_in_docs site)) select_prompt
         (session [str ''1 2''])
       = (Inr [1, 2], after_prompt)
   \<and> move_picked DOCS_DIR DRAFTS_DIR (articles_in_docs site) (str ''Unpublish'') False [1, 2]
         after_prompt
       = (Inl FileExistsError, after_moves)
   \<and> move_selected DOCS_DIR DRAFTS_DIR (articles_in_docs site) (str ''Unpublish'') False
         (session [str ''1 2''])
       = (Inl FileExistsError, after_moves)
   \<and> node_at (fs after_moves) MKDOCS_YML = node_at site MKDOCS_YML
   \<and> node_at (fs after_moves) (DOCS_DIR @ a_md) = None
   \<and> node_at (fs after_moves) (DRAFTS_DIR @ a_md) = Some (File (bytes ''# Hello World'' @ [10]))
   \<and> fst (interactive False (session [str ''1'', str ''1 2''])) = Inl FileExistsError
   \<and> node_at (fs (snd (interactive False (session [str ''1'', str ''1 2''])))) MKDOCS_YML
       = node_at site MKDOCS_YML"
proof -
  have a: "articles_in_docs site \<noteq> []" by code_simp
  have p: "prompt_indices (map (\<lambda>a. as_posix (relpath a)) (articles_in_docs site)) select_prompt
         (session [str ''1 2''])
       = (Inr [1, 2], after_prompt)"
    by code_simp
  have m: "move_picked DOCS_DIR DRAFTS_DIR (articles_in_docs site) (str ''Unpublish'') False [1, 2]
         after_prompt
       = (Inl FileExistsError, after_moves)"
    by code_simp
  have moved: "node_at (fs after_moves) (DOCS_DIR @ a_md) = None"
    "node_at (fs after_moves) (DRAFTS_DIR @ a_md) = Some (File (bytes ''# Hello World'' @ [10]))"
    by code_simp+
  have run: "interactive False (session [str ''1'', str ''1 2''])
       = (Inl FileExistsError, snd (interactive False (session [str ''1'', str ''1 2''])))"
    by code_simp
  have s: "fs (session [str ''1 2'']) = site" "fs (session [str ''1'', str ''1 2'']) = site"
    by (simp_all add: session_def)
  have roots: "(DOCS_DIR, DRAFTS_DIR) = (DOCS_DIR, DRAFTS_DIR)
                 \<or> (DOCS_DIR, DRAFTS_DIR) = (DRAFTS_DIR, DOCS_DIR)"
    by simp
  from failed_move_skips_nav_update [OF roots a p m]
  have "move_selected DOCS_DIR DRAFTS_DIR (articles_in_docs site) (str ''Unpublish'') False
          (session [str ''1 2''])
        = (Inl FileExistsError, after_moves)
      \<and> node_at (fs after_moves) MKDOCS_YML = node_at (fs (session [str ''1 2''])) MKDOCS_YML
      \<and> (interactive False (session [str ''1'', str ''1 2''])
            = (Inl FileExistsError, snd (interactive False (session [str ''1'', str ''1 2''])))
          \<and> FileExistsError \<noteq> UnicodeEncodeError \<longrightarrow>
           node_at (fs (snd (interactive False (session [str ''1'', str ''1 2'']))))
             MKDOCS_YML
           = node_at (fs (session [str ''1'', str ''1 2''])) MKDOCS_YML)" .
  with run have inst: "move_selected DOCS_DIR DRAFTS_DIR (articles_in_docs site) (str ''Unpublish'') False
          (session [str ''1 2''])
        = (Inl FileExistsError, after_moves)"
    "node_at (fs after_moves) MKDOCS_YML = node_at (fs (session [str ''1 2''])) MKDOCS_YML"
    "node_at (fs (snd (interactive False (session [str ''1'', str ''1 2'']))))
             MKDOCS_YML
           = node_at (fs (session [str ''1'', str ''1 2''])) MKDOCS_YML"
    by blast+
  have res: "fst (interactive False (session [str ''1'', str ''1 2''])) = Inl FileExistsError"
    by code_simp
  from inst(2,3) have unchanged: "node_at (fs after_moves) MKDOCS_YML = node_at site MKDOCS_YML"
    "node_at (fs (snd (interactive False (session [str ''1'', str ''1 2'']))))
             MKDOCS_YML
           = node_at site MKDOCS_YML"
    by (simp_all only: s)
  from a p m inst(1) unchanged moved res show ?thesis by blast
qed

subsection \<open>Where the code departs from the claims\<close>

text \<open>
  Claim C2 says that title extraction never raises and falls back to the title derived
  from the file name whenever the file cannot be read. \<open>_read_title\<close> catches
  \<open>OSError\<close> only: a file whose bytes are not valid UTF-8 makes \<open>read_text\<close> raise
  \<open>UnicodeDecodeError\<close>, which is no \<open>OSError\<close>, and the exception leaves
  \<open>_read_title\<close> and with it \<open>_render_nav_yaml\<close>. The fallback itself works where
  the code reaches it: for a file without a heading, for a missing file and for a
  directory.
\<close>

theorem read_title_invalid_utf8_raises:
  "is_file latin1_site cafe_md
   \<and> read_title latin1_site cafe_md = Inl UnicodeDecodeError
   \<and> render_nav_yaml latin1_site = Inl UnicodeDecodeError
   \<and> read_title site (DOCS_DIR @ b_note_md) = Inr (str ''B Note'')
   \<and> read_title site (DOCS_DIR @ [str ''llm'', str ''no-such_file.md'']) = Inr (str ''No Such File'')
   \<and> read_title site (DRAFTS_DIR @ c_md) = Inr (str ''C'')"
  by code_simp

text \<open>
  Claim C6 says that an empty selection line cancels the run silently and leaves the
  configuration document unchanged. \<open>_prompt_indices\<close> returns the empty list, the
  loop moves nothing, and \<open>_interactive\<close> goes on to \<open>_update_mkdocs_nav\<close>: the run
  ends with status 0 and with both stores as they were, but it has rewritten the
  configuration document and printed \<open>Updated mkdocs nav.\<close>
\<close>

theorem empty_selection_rewrites_nav:
  "fst (interactive False (session [str ''1'', []])) = Inr 0
   \<and> last (stdout after_cancel) = str ''Updated mkdocs nav.'' @ [10]
   \<and> node_at (fs after_cancel) DOCS_DIR = node_at site DOCS_DIR
   \<and> node_at (fs after_cancel) DRAFTS_DIR = node_at site DRAFTS_DIR
   \<and> read_text site MKDOCS_YML = Inr (str ''site_name: x'' @ [10])
   \<and> read_text (fs after_cancel) MKDOCS_YML
       = Inr (str ''site_name: x'' @ [10, 10] @ str ''nav:'' @ [10]
              @ str ''  - Home: index.md'' @ [10] @ str ''  - LLM Notes:'' @ [10]
              @ str ''      - Hello World: llm/a.md'' @ [10]
              @ str ''      - B Note: llm/b_note.md'' @ [10]
              @ str ''      - C: llm/c.md'' @ [10] @ str ''  - About: about.md'' @ [10])
   \<and> fst (interactive False (session [str ''1'', str ''   ''])) = Inr 0
   \<and> last (stdout (snd (interactive False (session [str ''1'', str ''   '']))))
       = str ''Updated mkdocs nav.'' @ [10]"
  by code_simp

end
